theory Spec2Isabelle
  imports Complex_Main "HOL-Library.AList" "HOL-Library.Sublist"
begin

section \<open>Decor: the download/install model (package models)\<close>

text \<open>
  A shallow embedding of \<^verbatim>\<open>src/models/downloadinstall.go\<close>.  Go strings are byte
  lists (\<open>string\<close>), Go maps are association lists with distinct keys (looked up with
  \<open>map_of\<close>, written with \<open>AList.update\<close>), pointers to \<^verbatim>\<open>LanguageProgress\<close> are
  addresses into an explicit heap, a run-time panic is a value of \<open>go_error\<close>, and the
  operating system (the outcome of every external command) is a parameter of type
  \<open>Env\<close>.  The \<^verbatim>\<open>float64\<close> field \<^verbatim>\<open>Progress\<close> only ever holds the values
  \<open>0\<close>, \<open>i / 3\<close> and \<open>1\<close>, which are compared with \<open>1.0\<close>; it is modelled by exact
  rationals.  The counter \<^verbatim>\<open>currentIndex\<close> starts at zero and is only ever incremented,
  so it is a natural number.
\<close>

subsection \<open>Data model\<close>

datatype go_error = IndexOutOfRange | NilPointerDereference

type_synonym ('k, 'v) gomap = "('k \<times> 'v) list"

record InstallationStatus =
  Language :: string
  Installed :: bool
  Version :: string
  LatestVersion :: string
  Error :: string

record LanguageProgress =
  ProgLanguage :: string
  Progress :: rat
  CurrentStep :: string
  TotalSteps :: int
  CurrentStepNum :: int
  ErrorMessage :: string

text \<open>The operating system as the code sees it: \<^verbatim>\<open>runtime.GOOS\<close>, the result of
  \<^verbatim>\<open>cmd.CombinedOutput()\<close> (\<open>Inl\<close> the error, \<open>Inr\<close> the output) and the result of
  \<^verbatim>\<open>cmd.Run()\<close> (\<open>None\<close> is the nil error).\<close>

record Env =
  GOOS :: string
  CombinedOutput :: "string list \<Rightarrow> string + string"
  Run :: "string list \<Rightarrow> string option"

subsection \<open>The string functions used by the probe\<close>

text \<open>
  A Go string is its UTF-8 bytes.  \<^verbatim>\<open>strings.ToLower\<close> is only ever compared with the
  five ASCII keys \<^verbatim>\<open>go\<close>, \<^verbatim>\<open>python\<close>, \<^verbatim>\<open>rust\<close>, \<^verbatim>\<open>c++\<close> and \<^verbatim>\<open>java\<close>; it is
  modelled on the ASCII letters and leaves every other byte as it is.  (The only runes
  outside ASCII whose lower case is an ASCII letter are U+0130 and U+212A, with lower
  cases \<^verbatim>\<open>i\<close> and \<^verbatim>\<open>k\<close>, letters that occur in none of the keys, so the comparisons
  come out as in Go.)
\<close>

definition lower_char :: "char \<Rightarrow> char" where
  "lower_char c =
     (case map_of (zip ''ABCDEFGHIJKLMNOPQRSTUVWXYZ'' ''abcdefghijklmnopqrstuvwxyz'') c of
        Some d \<Rightarrow> d
      | None \<Rightarrow> c)"

definition ToLower :: "string \<Rightarrow> string" where
  "ToLower s = map lower_char s"

definition newline :: char where
  "newline = CHR 0x0A"

text \<open>\<^verbatim>\<open>strings.Split(s, "\n")\<close>: never the empty list.\<close>

fun Split_lines :: "string \<Rightarrow> string list" where
  "Split_lines [] = [[]]"
| "Split_lines (c # cs) =
     (if c = newline then [] # Split_lines cs
      else (case Split_lines cs of
              [] \<Rightarrow> [[c]]
            | l # ls \<Rightarrow> (c # l) # ls))"

text \<open>
  \<^verbatim>\<open>strings.TrimSpace\<close> removes the white space of Unicode from both ends:
  \<^verbatim>\<open>unicode.IsSpace\<close> holds of U+0009 to U+000D, U+0020, U+0085, U+00A0, U+1680,
  U+2000 to U+200A, U+2028, U+2029, U+202F, U+205F and U+3000.  \<open>spaceRunes\<close> lists
  the UTF-8 encoding of each.  The decoder of Go takes a rune off the front of a string
  exactly when the string starts with the rune's encoding, and off the back exactly
  when the string ends with it; bytes that are not valid UTF-8 decode to U+FFFD, which
  is not white space, and stop the trimming.
\<close>

definition spaceRunes :: "string list" where
  "spaceRunes =
     [[CHR 0x09], [CHR 0x0A], [CHR 0x0B], [CHR 0x0C], [CHR 0x0D], [CHR 0x20],
      [CHR 0xC2, CHR 0x85], [CHR 0xC2, CHR 0xA0],
      [CHR 0xE1, CHR 0x9A, CHR 0x80],
      [CHR 0xE2, CHR 0x80, CHR 0x80], [CHR 0xE2, CHR 0x80, CHR 0x81],
      [CHR 0xE2, CHR 0x80, CHR 0x82], [CHR 0xE2, CHR 0x80, CHR 0x83],
      [CHR 0xE2, CHR 0x80, CHR 0x84], [CHR 0xE2, CHR 0x80, CHR 0x85],
      [CHR 0xE2, CHR 0x80, CHR 0x86], [CHR 0xE2, CHR 0x80, CHR 0x87],
      [CHR 0xE2, CHR 0x80, CHR 0x88], [CHR 0xE2, CHR 0x80, CHR 0x89],
      [CHR 0xE2, CHR 0x80, CHR 0x8A],
      [CHR 0xE2, CHR 0x80, CHR 0xA8], [CHR 0xE2, CHR 0x80, CHR 0xA9],
      [CHR 0xE2, CHR 0x80, CHR 0xAF],
      [CHR 0xE2, CHR 0x81, CHR 0x9F],
      [CHR 0xE3, CHR 0x80, CHR 0x80]]"

function TrimLeft :: "string \<Rightarrow> string" where
  "TrimLeft s =
     (case find (\<lambda>p. prefix p s) spaceRunes of
        None \<Rightarrow> s
      | Some p \<Rightarrow> TrimLeft (drop (length p) s))"
  by pat_completeness auto
termination
proof (relation "measure length")
  show "wf (measure length)" by simp
next
  fix s :: string and p
  assume "find (\<lambda>p. prefix p s) spaceRunes = Some p"
  then have "p \<in> set spaceRunes" and "prefix p s"
    by (auto simp: find_Some_iff)
  then have "p \<noteq> []" and "length p \<le> length s"
    by (auto simp: spaceRunes_def prefix_length_le)
  then show "(drop (length p) s, s) \<in> measure length" by (cases p) auto
qed

function TrimRight :: "string \<Rightarrow> string" where
  "TrimRight s =
     (case find (\<lambda>p. suffix p s) spaceRunes of
        None \<Rightarrow> s
      | Some p \<Rightarrow> TrimRight (take (length s - length p) s))"
  by pat_completeness auto
termination
proof (relation "measure length")
  show "wf (measure length)" by simp
next
  fix s :: string and p
  assume "find (\<lambda>p. suffix p s) spaceRunes = Some p"
  then have "p \<in> set spaceRunes" and "suffix p s"
    by (auto simp: find_Some_iff)
  then have "p \<noteq> []" and "length p \<le> length s"
    by (auto simp: spaceRunes_def suffix_length_le)
  then show "(take (length s - length p) s, s) \<in> measure length" by (cases p) auto
qed

declare TrimLeft.simps [simp del] TrimRight.simps [simp del]

definition TrimSpace :: "string \<Rightarrow> string" where
  "TrimSpace s = TrimRight (TrimLeft s)"

subsection \<open>VersionProbe\<close>

definition parseVersion :: "string \<Rightarrow> string \<Rightarrow> string" where
  "parseVersion output language =
     (let lines = Split_lines output
      in if length lines > 0 then TrimSpace (lines ! 0) else ''unknown'')"

definition latestVersions :: "(string, string) gomap" where
  "latestVersions =
     [(''go'', ''1.25.5''), (''python'', ''3.13.0''), (''rust'', ''1.81.0''),
      (''c++'', ''14''), (''java'', ''21'')]"

definition getLatestVersion :: "string \<Rightarrow> string" where
  "getLatestVersion language =
     (case map_of latestVersions (ToLower language) of
        Some v \<Rightarrow> v
      | None \<Rightarrow> [])"

definition probeCommand :: "Env \<Rightarrow> string \<Rightarrow> string list option" where
  "probeCommand env language =
     (let l = ToLower language
      in if l = ''go'' then Some [''go'', ''version'']
         else if l = ''python'' then Some [''python3'', ''--version'']
         else if l = ''rust'' then Some [''rustc'', ''--version'']
         else if l = ''c++'' then
           (if GOOS env = ''darwin'' then Some [''clang'', ''--version'']
            else Some [''g++'', ''--version''])
         else if l = ''java'' then Some [''java'', ''-version'']
         else None)"

definition checkLanguageInstallation :: "Env \<Rightarrow> string \<Rightarrow> bool \<times> string \<times> string" where
  "checkLanguageInstallation env language =
     (case probeCommand env language of
        None \<Rightarrow> (False, [], [])
      | Some cmd \<Rightarrow>
          (case CombinedOutput env cmd of
             Inl err \<Rightarrow> (False, [], [])
           | Inr output \<Rightarrow>
               (True, parseVersion output language, getLatestVersion language)))"

fun checkInstalledLanguages_loop ::
  "Env \<Rightarrow> string list \<Rightarrow> (string, InstallationStatus) gomap \<Rightarrow> (string, InstallationStatus) gomap"
where
  "checkInstalledLanguages_loop env [] status = status"
| "checkInstalledLanguages_loop env (lang # languages) status =
     (case checkLanguageInstallation env lang of
        (installed, version, latest) \<Rightarrow>
          checkInstalledLanguages_loop env languages
            (AList.update lang
               \<lparr>Language = lang, Installed = installed, Version = version,
                LatestVersion = latest, Error = []\<rparr> status))"

definition checkInstalledLanguages :: "Env \<Rightarrow> string list \<Rightarrow> (string, InstallationStatus) gomap" where
  "checkInstalledLanguages env languages = checkInstalledLanguages_loop env languages []"

subsection \<open>The default decision\<close>

definition getDefaultChoice :: "InstallationStatus \<Rightarrow> string" where
  "getDefaultChoice status =
     (if \<not> Installed status then ''install''
      else if Version status \<noteq> LatestVersion status then ''update''
      else ''skip'')"

subsection \<open>The orchestrator: model, messages and commands\<close>

text \<open>The embedded \<^verbatim>\<open>Decor\<close> value of \<^verbatim>\<open>DownloadInstallModel\<close> is never read by the
  methods below and is left out.  A tracker map holds addresses of the heap.\<close>

type_synonym addr = nat

record DownloadInstallModel =
  selectedLanguages :: "string list"
  installationStatus :: "(string, InstallationStatus) gomap"
  currentIndex :: nat
  state :: string
  userChoices :: "(string, string) gomap"
  languageProgress :: "(string, addr) gomap"

text \<open>A \<^verbatim>\<open>tea.Cmd\<close> is one of the four commands this model ever returns; \<^verbatim>\<open>tea.Batch\<close>
  is a list of them and the nil command is the empty list.\<close>

datatype Cmd =
    Quit
  | CheckInstalled "string list"
  | InstallSelected "string list" "(string, string) gomap" "(string, InstallationStatus) gomap"
  | ProgressUpdateTicker

datatype Msg =
    KeyMsg string
  | InstallationStatusMsg "(string, InstallationStatus) gomap"
  | InitProgressMsg "(string, addr) gomap"
  | ProgressTickMsg
  | ProgressUpdateMsg string rat string
  | InstallCompleteMsg "(string, string) gomap"
  | InstallErrorMsg string string
  | OtherMsg

definition NewDownloadInstallModel :: "string list \<Rightarrow> DownloadInstallModel" where
  "NewDownloadInstallModel languages =
     \<lparr>selectedLanguages = languages, installationStatus = [], currentIndex = 0,
      state = ''checking'', userChoices = [], languageProgress = []\<rparr>"

definition Init :: "DownloadInstallModel \<Rightarrow> Cmd list" where
  "Init m = [CheckInstalled (selectedLanguages m)]"

text \<open>Reading a missing key of a \<^verbatim>\<open>map[string]string\<close> gives the empty string.\<close>

definition lookup_str :: "(string, string) gomap \<Rightarrow> string \<Rightarrow> string" where
  "lookup_str m k = (case map_of m k of Some v \<Rightarrow> v | None \<Rightarrow> [])"

text \<open>\<^verbatim>\<open>m.selectedLanguages[m.currentIndex]\<close>, which panics out of range.\<close>

definition currentLanguage :: "DownloadInstallModel \<Rightarrow> go_error + string" where
  "currentLanguage m =
     (if currentIndex m < length (selectedLanguages m)
      then Inr (selectedLanguages m ! currentIndex m)
      else Inl IndexOutOfRange)"

text \<open>The common tail of the three prompting handlers: store the choice, advance the
  cursor, and leave for "installing" when the cursor has passed the last item.\<close>

definition recordChoice :: "DownloadInstallModel \<Rightarrow> string \<Rightarrow> string \<Rightarrow> DownloadInstallModel \<times> Cmd list" where
  "recordChoice m lang choice =
     (let m1 = m\<lparr>userChoices := AList.update lang choice (userChoices m)\<rparr>;
          m2 = m1\<lparr>currentIndex := currentIndex m1 + 1\<rparr>
      in if currentIndex m2 \<ge> length (selectedLanguages m2)
         then (m2\<lparr>state := ''installing''\<rparr>,
               [InstallSelected (selectedLanguages m2) (userChoices m2) (installationStatus m2),
                ProgressUpdateTicker])
         else (m2, []))"

text \<open>The loop of the \<^verbatim>\<open>ProgressTickMsg\<close> case.\<close>

fun allComplete_loop :: "LanguageProgress list \<Rightarrow> (string, addr) gomap \<Rightarrow> bool \<Rightarrow> bool" where
  "allComplete_loop h [] allComplete = allComplete"
| "allComplete_loop h ((lang, a) # rest) allComplete =
     allComplete_loop h rest
       (if Progress (h ! a) < 1 \<and> CurrentStep (h ! a) \<noteq> ''error'' then False else allComplete)"

fun Update ::
  "DownloadInstallModel \<Rightarrow> LanguageProgress list \<Rightarrow> Msg \<Rightarrow>
     go_error + (DownloadInstallModel \<times> LanguageProgress list \<times> Cmd list)"
where
  "Update m h (KeyMsg k) =
     (if k = ''ctrl+c'' \<or> k = ''q'' then Inr (m, h, [Quit])
      else if k = ''y'' \<or> k = ''enter'' then
        (if state m = ''prompting'' then
           (case currentLanguage m of
              Inl e \<Rightarrow> Inl e
            | Inr lang \<Rightarrow>
                (case map_of (installationStatus m) lang of
                   None \<Rightarrow> Inl NilPointerDereference
                 | Some status \<Rightarrow>
                     (case recordChoice m lang (getDefaultChoice status) of
                        (m', cmd) \<Rightarrow> Inr (m', h, cmd))))
         else Inr (m, h, []))
      else if k = ''n'' then
        (if state m = ''prompting'' then
           (case currentLanguage m of
              Inl e \<Rightarrow> Inl e
            | Inr lang \<Rightarrow>
                (case recordChoice m lang ''skip'' of (m', cmd) \<Rightarrow> Inr (m', h, cmd)))
         else Inr (m, h, []))
      else if k = ''u'' then
        (if state m = ''prompting'' then
           (case currentLanguage m of
              Inl e \<Rightarrow> Inl e
            | Inr lang \<Rightarrow>
                (case recordChoice m lang ''update'' of (m', cmd) \<Rightarrow> Inr (m', h, cmd)))
         else Inr (m, h, []))
      else Inr (m, h, []))"
| "Update m h (InstallationStatusMsg status) =
     Inr (m\<lparr>installationStatus := status, state := ''prompting''\<rparr>, h, [])"
| "Update m h (InitProgressMsg trackers) =
     Inr (m\<lparr>languageProgress := trackers\<rparr>, h, [ProgressUpdateTicker])"
| "Update m h ProgressTickMsg =
     (if allComplete_loop h (languageProgress m) True
      then Inr (m\<lparr>state := ''complete''\<rparr>, h, [])
      else Inr (m, h, [ProgressUpdateTicker]))"
| "Update m h (ProgressUpdateMsg lang p step) =
     (case map_of (languageProgress m) lang of
        Some a \<Rightarrow> Inr (m, h[a := (h ! a)\<lparr>Progress := p, CurrentStep := step\<rparr>], [ProgressUpdateTicker])
      | None \<Rightarrow> Inr (m, h, [ProgressUpdateTicker]))"
| "Update m h (InstallCompleteMsg res) = Inr (m\<lparr>state := ''complete''\<rparr>, h, [])"
| "Update m h (InstallErrorMsg lang err) = Inr (m, h, [])"
| "Update m h OtherMsg = Inr (m, h, [])"

text \<open>\<^verbatim>\<open>View\<close> is called after every \<^verbatim>\<open>Update\<close>.  Its only effect on the model is in
  \<^verbatim>\<open>renderInstallationProgress\<close>, which stores a fresh tracker in the tracker map for every
  non-skipped language that has none.\<close>

definition newTracker :: "string \<Rightarrow> LanguageProgress" where
  "newTracker lang =
     \<lparr>ProgLanguage = lang, Progress = 0, CurrentStep = ''starting'', TotalSteps = 3,
      CurrentStepNum = 0, ErrorMessage = []\<rparr>"

fun renderInstallationProgress ::
  "string list \<Rightarrow> (string, string) gomap \<Rightarrow> (string, addr) gomap \<times> LanguageProgress list \<Rightarrow>
     (string, addr) gomap \<times> LanguageProgress list"
where
  "renderInstallationProgress [] choices (lp, h) = (lp, h)"
| "renderInstallationProgress (lang # langs) choices (lp, h) =
     (if lookup_str choices lang = ''skip'' then renderInstallationProgress langs choices (lp, h)
      else if map_of lp lang = None
      then renderInstallationProgress langs choices
             (AList.update lang (length h) lp, h @ [newTracker lang])
      else renderInstallationProgress langs choices (lp, h))"

definition View :: "DownloadInstallModel \<Rightarrow> LanguageProgress list \<Rightarrow> DownloadInstallModel \<times> LanguageProgress list" where
  "View m h =
     (if state m = ''installing''
      then (case renderInstallationProgress (selectedLanguages m) (userChoices m)
                   (languageProgress m, h) of
              (lp, h') \<Rightarrow> (m\<lparr>languageProgress := lp\<rparr>, h'))
      else (m, h))"

subsection \<open>ActionRunner: the install and update functions\<close>

text \<open>
  A runner is the list of its atomic actions, in program order: a write of \<^verbatim>\<open>Progress\<close>
  and \<^verbatim>\<open>CurrentStep\<close> under the tracker's mutex (\<open>LockedSet\<close>), an external command
  (\<open>Exec\<close>, which sets \<^verbatim>\<open>err\<close>), \<^verbatim>\<open>fmt.Errorf\<close> returned at once (\<open>Errorf\<close>), and the
  three unlocked writes the worker goroutine makes once the runner has returned
  (\<open>SetResult\<close>, \<open>SetCurrentStep\<close>, \<open>SetLast\<close>).  \<^verbatim>\<open>time.Sleep\<close> changes no data and is
  left out.
\<close>

datatype WAction =
    LockedSet rat string
  | Exec "string list"
  | Errorf string
  | SetResult
  | SetCurrentStep
  | SetLast

text \<open>\<^verbatim>\<open>for i, step := range steps\<close> with the body that every runner shares.\<close>

definition stepLoop :: "string list \<Rightarrow> WAction list" where
  "stepLoop steps =
     map (\<lambda>i. LockedSet (of_nat i / of_nat (length steps)) (steps ! i)) [0..<length steps]"

definition installGoWithProgress :: "WAction list" where
  "installGoWithProgress =
     stepLoop [''Downloading Go...'', ''Extracting files...'', ''Verifying installation...'']
     @ [LockedSet 1 ''Verifying installation...'',
        Exec [''bash'', ''-c'',
              ''curl -L https://go.dev/dl/go1.25.5.darwin-arm64.tar.gz -o go1.25.5.tar.gz && tar -C /usr/local -xzf go1.25.5.tar.gz'']]"

definition installPythonWithProgress :: "Env \<Rightarrow> WAction list" where
  "installPythonWithProgress env =
     stepLoop [''Preparing installation...'', ''Installing Python...'', ''Verifying installation...'']
     @ [LockedSet 1 ''Verifying installation...'',
        (if GOOS env = ''darwin'' then Exec [''brew'', ''install'', ''python@3.13'']
         else Exec [''apt-get'', ''install'', ''-y'', ''python3''])]"

definition installRustWithProgress :: "WAction list" where
  "installRustWithProgress =
     stepLoop [''Downloading Rust installer...'', ''Running installation script...'',
               ''Configuring environment...'']
     @ [LockedSet 1 ''Configuring environment...'',
        Exec [''bash'', ''-c'',
              ''curl --proto '' @ [CHR 0x27] @ ''=https'' @ [CHR 0x27] @
              '' --tlsv1.2 -sSf https://sh.rustup.rs | sh -s -- -y'']]"

definition installCppWithProgress :: "Env \<Rightarrow> WAction list" where
  "installCppWithProgress env =
     stepLoop [''Preparing installation...'', ''Installing C++ compiler...'', ''Setting up environment...'']
     @ [LockedSet 1 ''Setting up environment...'',
        (if GOOS env = ''darwin'' then Exec [''xcode-select'', ''--install'']
         else Exec [''apt-get'', ''install'', ''-y'', ''build-essential''])]"

definition installJavaWithProgress :: "Env \<Rightarrow> WAction list" where
  "installJavaWithProgress env =
     stepLoop [''Preparing installation...'', ''Installing OpenJDK...'', ''Setting up environment...'']
     @ [LockedSet 1 ''Setting up environment...'',
        (if GOOS env = ''darwin'' then Exec [''brew'', ''install'', ''openjdk@21'']
         else Exec [''apt-get'', ''install'', ''-y'', ''openjdk-21-jdk''])]"

definition updateGoWithProgress :: "WAction list" where
  "updateGoWithProgress =
     stepLoop [''Checking latest version...'', ''Downloading Go...'', ''Installing update...'']
     @ [LockedSet 1 ''Installing update...'']
     @ installGoWithProgress"

definition updatePythonWithProgress :: "Env \<Rightarrow> WAction list" where
  "updatePythonWithProgress env =
     stepLoop [''Fetching available updates...'', ''Upgrading Python...'', ''Verifying update...'']
     @ [LockedSet 1 ''Verifying update...'',
        (if GOOS env = ''darwin'' then Exec [''brew'', ''upgrade'', ''python@3.13'']
         else Exec [''apt-get'', ''upgrade'', ''-y'', ''python3''])]"

definition updateRustWithProgress :: "WAction list" where
  "updateRustWithProgress =
     stepLoop [''Checking for updates...'', ''Updating Rust...'', ''Verifying update...'']
     @ [LockedSet 1 ''Verifying update...'', Exec [''rustup'', ''update'']]"

definition updateCppWithProgress :: "Env \<Rightarrow> WAction list" where
  "updateCppWithProgress env =
     stepLoop [''Checking for system updates...'', ''Installing updates...'', ''Verifying...'']
     @ [LockedSet 1 ''Verifying...'',
        (if GOOS env = ''darwin'' then Exec [''softwareupdate'', ''-i'', ''-a'']
         else Exec [''apt-get'', ''upgrade'', ''-y''])]"

definition updateJavaWithProgress :: "Env \<Rightarrow> WAction list" where
  "updateJavaWithProgress env =
     stepLoop [''Fetching available updates...'', ''Upgrading OpenJDK...'', ''Verifying update...'']
     @ [LockedSet 1 ''Verifying update...'',
        (if GOOS env = ''darwin'' then Exec [''brew'', ''upgrade'', ''openjdk@21'']
         else Exec [''apt-get'', ''upgrade'', ''-y'', ''openjdk-21-jdk''])]"

definition installLanguageWithProgress :: "Env \<Rightarrow> string \<Rightarrow> WAction list" where
  "installLanguageWithProgress env language =
     (let l = ToLower language
      in if l = ''go'' then installGoWithProgress
         else if l = ''python'' then installPythonWithProgress env
         else if l = ''rust'' then installRustWithProgress
         else if l = ''c++'' then installCppWithProgress env
         else if l = ''java'' then installJavaWithProgress env
         else [Errorf (''unsupported language: '' @ language)])"

definition updateLanguageWithProgress :: "Env \<Rightarrow> string \<Rightarrow> WAction list" where
  "updateLanguageWithProgress env language =
     (let l = ToLower language
      in if l = ''go'' then updateGoWithProgress
         else if l = ''python'' then updatePythonWithProgress env
         else if l = ''rust'' then updateRustWithProgress
         else if l = ''c++'' then updateCppWithProgress env
         else if l = ''java'' then updateJavaWithProgress env
         else [Errorf (''unsupported language: '' @ language)])"

subsection \<open>The worker goroutines\<close>

record Worker =
  wLanguage :: string
  wChoice :: string
  wProg :: addr
  wTodo :: "WAction list"
  wErr :: "string option"

text \<open>The body of the goroutine started for one language: the \<^verbatim>\<open>switch choiceType\<close>,
  which has no default case.\<close>

definition workerBody :: "Env \<Rightarrow> string \<Rightarrow> string \<Rightarrow> WAction list" where
  "workerBody env language choiceType =
     (if choiceType = ''install''
      then installLanguageWithProgress env language @ [SetResult, SetCurrentStep, SetLast]
      else if choiceType = ''update''
      then updateLanguageWithProgress env language @ [SetResult, SetCurrentStep, SetLast]
      else [])"

definition resultString :: "Worker \<Rightarrow> string" where
  "resultString w =
     (case wErr w of
        Some e \<Rightarrow> ''error: '' @ e
      | None \<Rightarrow> if wChoice w = ''install'' then ''installed'' else ''updated'')"

text \<open>One atomic action of a worker on the heap and on the \<^verbatim>\<open>results\<close> map.\<close>

fun perform ::
  "Env \<Rightarrow> WAction \<Rightarrow> Worker \<times> LanguageProgress list \<times> (string, string) gomap \<Rightarrow>
     Worker \<times> LanguageProgress list \<times> (string, string) gomap"
where
  "perform env (LockedSet p s) (w, h, r) =
     (w, h[wProg w := (h ! wProg w)\<lparr>Progress := p, CurrentStep := s\<rparr>], r)"
| "perform env (Exec c) (w, h, r) = (w\<lparr>wErr := Run env c\<rparr>, h, r)"
| "perform env (Errorf e) (w, h, r) = (w\<lparr>wErr := Some e\<rparr>, h, r)"
| "perform env SetResult (w, h, r) = (w, h, AList.update (wLanguage w) (resultString w) r)"
| "perform env SetCurrentStep (w, h, r) =
     (w, h[wProg w := (h ! wProg w)\<lparr>CurrentStep := (if wErr w \<noteq> None then ''error'' else ''complete'')\<rparr>], r)"
| "perform env SetLast (w, h, r) =
     (case wErr w of
        Some e \<Rightarrow> (w, h[wProg w := (h ! wProg w)\<lparr>ErrorMessage := e\<rparr>], r)
      | None \<Rightarrow> (w, h[wProg w := (h ! wProg w)\<lparr>Progress := 1\<rparr>], r))"

definition workerStep ::
  "Env \<Rightarrow> Worker \<times> LanguageProgress list \<times> (string, string) gomap \<Rightarrow>
     Worker \<times> LanguageProgress list \<times> (string, string) gomap"
where
  "workerStep env c =
     (case c of (w, h, r) \<Rightarrow>
        (case wTodo w of
           [] \<Rightarrow> (w, h, r)
         | a # rest \<Rightarrow> perform env a (w\<lparr>wTodo := rest\<rparr>, h, r)))"

text \<open>A worker run to its end with nothing in between.\<close>

fun runWorker ::
  "Env \<Rightarrow> nat \<Rightarrow> Worker \<times> LanguageProgress list \<times> (string, string) gomap \<Rightarrow>
     Worker \<times> LanguageProgress list \<times> (string, string) gomap"
where
  "runWorker env 0 c = c"
| "runWorker env (Suc n) c = runWorker env n (workerStep env c)"

subsection \<open>The install command\<close>

text \<open>The function batched by \<^verbatim>\<open>installSelectedLanguagesWithProgress\<close>: its first loop
  allocates one tracker per non-skipped language, its second loop (in a goroutine of its
  own) starts one worker per non-skipped language.  The tracker a worker gets is the one
  stored by the first loop; a missing one would be a nil pointer.\<close>

fun makeTrackers ::
  "string list \<Rightarrow> (string, string) gomap \<Rightarrow> (string, addr) gomap \<times> LanguageProgress list \<Rightarrow>
     (string, addr) gomap \<times> LanguageProgress list"
where
  "makeTrackers [] choices (pt, h) = (pt, h)"
| "makeTrackers (lang # langs) choices (pt, h) =
     (if lookup_str choices lang \<noteq> ''skip''
      then makeTrackers langs choices (AList.update lang (length h) pt, h @ [newTracker lang])
      else makeTrackers langs choices (pt, h))"

fun startWorkers ::
  "Env \<Rightarrow> string list \<Rightarrow> (string, string) gomap \<Rightarrow> (string, addr) gomap \<Rightarrow>
     (string, string) gomap \<times> Worker list \<Rightarrow> go_error + ((string, string) gomap \<times> Worker list)"
where
  "startWorkers env [] choices pt (r, ws) = Inr (r, ws)"
| "startWorkers env (lang # langs) choices pt (r, ws) =
     (let choice = lookup_str choices lang
      in if choice = ''skip''
         then startWorkers env langs choices pt (AList.update lang ''skipped'' r, ws)
         else (case map_of pt lang of
                 None \<Rightarrow> Inl NilPointerDereference
               | Some a \<Rightarrow>
                   startWorkers env langs choices pt
                     (r, ws @ [\<lparr>wLanguage = lang, wChoice = choice, wProg = a,
                                wTodo = workerBody env lang choice, wErr = None\<rparr>])))"

subsection \<open>The program: runtime, model and workers\<close>

text \<open>
  The Bubble Tea runtime keeps the model, runs every command it is given concurrently and
  feeds the message a command returns to \<^verbatim>\<open>Update\<close>, then calls \<^verbatim>\<open>View\<close>.  A world is
  the model, the heap of trackers, the commands still running, the messages not yet
  delivered, the workers, their \<^verbatim>\<open>results\<close> map, and whether the program has quit.  An
  event is one atomic move: a running command finishes, a waiting message is delivered,
  a key is pressed, some other message arrives, or a worker performs its next action.
  Commands and messages may be taken in any order.
\<close>

record World =
  model :: DownloadInstallModel
  heap :: "LanguageProgress list"
  pending :: "Cmd list"
  msgs :: "Msg list"
  workers :: "Worker list"
  results :: "(string, string) gomap"
  quitting :: bool

datatype Event = RunCmd nat | Deliver nat | Key string | Other | WorkerStep nat

definition remove_nth :: "nat \<Rightarrow> 'a list \<Rightarrow> 'a list" where
  "remove_nth i xs = take i xs @ drop (Suc i) xs"

definition initWorld :: "string list \<Rightarrow> World" where
  "initWorld languages =
     \<lparr>model = NewDownloadInstallModel languages, heap = [],
      pending = Init (NewDownloadInstallModel languages), msgs = [], workers = [],
      results = [], quitting = False\<rparr>"

definition dispatch :: "Msg \<Rightarrow> World \<Rightarrow> go_error + World" where
  "dispatch msg w =
     (case Update (model w) (heap w) msg of
        Inl e \<Rightarrow> Inl e
      | Inr (m, h, cmd) \<Rightarrow>
          (case View m h of
             (m', h') \<Rightarrow> Inr (w\<lparr>model := m', heap := h', pending := pending w @ cmd\<rparr>)))"

fun runCmd :: "Env \<Rightarrow> Cmd \<Rightarrow> World \<Rightarrow> go_error + World" where
  "runCmd env Quit w = Inr (w\<lparr>quitting := True\<rparr>)"
| "runCmd env (CheckInstalled languages) w =
     Inr (w\<lparr>msgs := msgs w @ [InstallationStatusMsg (checkInstalledLanguages env languages)]\<rparr>)"
| "runCmd env ProgressUpdateTicker w = Inr (w\<lparr>msgs := msgs w @ [ProgressTickMsg]\<rparr>)"
| "runCmd env (InstallSelected languages choices status) w =
     (case makeTrackers languages choices ([], heap w) of
        (pt, h) \<Rightarrow>
          (case startWorkers env languages choices pt ([], []) of
             Inl e \<Rightarrow> Inl e
           | Inr (r, ws) \<Rightarrow>
               Inr (w\<lparr>heap := h, workers := workers w @ ws, results := r,
                      msgs := msgs w @ [InitProgressMsg pt]\<rparr>)))"

definition step :: "Env \<Rightarrow> Event \<Rightarrow> World \<Rightarrow> go_error + World" where
  "step env ev w =
     (if quitting w then Inr w
      else (case ev of
              RunCmd i \<Rightarrow>
                (if i < length (pending w)
                 then runCmd env (pending w ! i) (w\<lparr>pending := remove_nth i (pending w)\<rparr>)
                 else Inr w)
            | Deliver j \<Rightarrow>
                (if j < length (msgs w)
                 then dispatch (msgs w ! j) (w\<lparr>msgs := remove_nth j (msgs w)\<rparr>)
                 else Inr w)
            | Key k \<Rightarrow> dispatch (KeyMsg k) w
            | Other \<Rightarrow> dispatch OtherMsg w
            | WorkerStep i \<Rightarrow>
                (if i < length (workers w)
                 then (case workerStep env (workers w ! i, heap w, results w) of
                         (wk, h, r) \<Rightarrow>
                           Inr (w\<lparr>workers := (workers w)[i := wk], heap := h, results := r\<rparr>))
                 else Inr w)))"

fun exec :: "Env \<Rightarrow> Event list \<Rightarrow> World \<Rightarrow> go_error + World" where
  "exec env [] w = Inr w"
| "exec env (ev # evs) w =
     (case step env ev w of
        Inl e \<Rightarrow> Inl e
      | Inr w' \<Rightarrow> exec env evs w')"

text \<open>The orchestrator states a run passes through, the first one included.\<close>

fun trace :: "Env \<Rightarrow> Event list \<Rightarrow> World \<Rightarrow> string list" where
  "trace env [] w = [state (model w)]"
| "trace env (ev # evs) w =
     state (model w) #
       (case step env ev w of
          Inl e \<Rightarrow> []
        | Inr w' \<Rightarrow> trace env evs w')"

subsection \<open>Concrete environments\<close>

text \<open>A machine where \<^verbatim>\<open>go version\<close> answers with a line that ends in a no-break space
  and a carriage return, \<^verbatim>\<open>g++ --version\<close> answers with no output and every other probe
  fails, and one where no probe answers; installers succeed on both.\<close>

definition envGo :: Env where
  "envGo =
     \<lparr>GOOS = ''linux'',
      CombinedOutput =
        (\<lambda>c. if c = [''go'', ''version'']
             then Inr (''  go1.20 '' @ [CHR 0xC2, CHR 0xA0, CHR 0x0D, newline] @ ''rest'')
             else if c = [''g++'', ''--version''] then Inr []
             else Inl ''exit status 1''),
      Run = (\<lambda>c. None)\<rparr>"

definition envNone :: Env where
  "envNone =
     \<lparr>GOOS = ''linux'', CombinedOutput = (\<lambda>c. Inl ''exit status 1''), Run = (\<lambda>c. None)\<rparr>"

subsection \<open>The control invariant\<close>

fun isInstall :: "Cmd \<Rightarrow> bool" where
  "isInstall (InstallSelected ls ch st) = True"
| "isInstall _ = False"

definition phaseChecking :: "Env \<Rightarrow> string list \<Rightarrow> World \<Rightarrow> bool" where
  "phaseChecking env sel w =
     (state (model w) = ''checking'' \<and> currentIndex (model w) = 0 \<and> userChoices (model w) = []
      \<and> workers w = []
      \<and> (\<forall>c \<in> set (pending w). c = Quit \<or> c = CheckInstalled sel)
      \<and> (\<forall>x \<in> set (msgs w). x = InstallationStatusMsg (checkInstalledLanguages env sel))
      \<and> length (filter (\<lambda>c. c \<noteq> Quit) (pending w)) + length (msgs w) \<le> 1)"

definition phasePrompting :: "string list \<Rightarrow> World \<Rightarrow> bool" where
  "phasePrompting sel w =
     (state (model w) = ''prompting''
      \<and> (currentIndex (model w) < length sel \<or> (sel = [] \<and> currentIndex (model w) = 0))
      \<and> fst ` set (userChoices (model w)) = set (take (currentIndex (model w)) sel)
      \<and> (\<forall>l \<in> set sel. map_of (installationStatus (model w)) l \<noteq> None)
      \<and> workers w = []
      \<and> (\<forall>c \<in> set (pending w). c = Quit)
      \<and> msgs w = [])"

definition phaseInstalling :: "string list \<Rightarrow> World \<Rightarrow> bool" where
  "phaseInstalling sel w =
     ((state (model w) = ''installing'' \<or> state (model w) = ''complete'')
      \<and> sel \<noteq> []
      \<and> currentIndex (model w) = length sel
      \<and> fst ` set (userChoices (model w)) = set sel
      \<and> (\<forall>c \<in> set (pending w). c = Quit \<or> c = ProgressUpdateTicker
             \<or> c = InstallSelected sel (userChoices (model w)) (installationStatus (model w)))
      \<and> (\<forall>x \<in> set (msgs w). x = ProgressTickMsg \<or> (\<exists>t. x = InitProgressMsg t))
      \<and> length (filter isInstall (pending w)) \<le> 1
      \<and> (filter isInstall (pending w) \<noteq> [] \<longrightarrow> workers w = []))"

definition inv1 :: "Env \<Rightarrow> string list \<Rightarrow> World \<Rightarrow> bool" where
  "inv1 env sel w =
     (selectedLanguages (model w) = sel
      \<and> (phaseChecking env sel w \<or> phasePrompting sel w \<or> phaseInstalling sel w))"

text \<open>One move along the line checking, prompting, installing, complete, or none.\<close>

definition advances :: "string \<Rightarrow> string \<Rightarrow> bool" where
  "advances s s' =
     (s' = s \<or> (s = ''checking'' \<and> s' = ''prompting'') \<or> (s = ''prompting'' \<and> s' = ''installing'')
      \<or> (s = ''installing'' \<and> s' = ''complete''))"

definition allStates :: "string list" where
  "allStates = [''checking'', ''prompting'', ''installing'', ''complete'']"

definition statesFrom :: "string \<Rightarrow> string list" where
  "statesFrom s = dropWhile (\<lambda>x. x \<noteq> s) allStates"

text \<open>The run in which every probe result is answered with the skip key: the probes
  finish and are delivered, one skip per item, the install command and its message, one
  poll tick.\<close>

definition skipAll :: "nat \<Rightarrow> Event list" where
  "skipAll n =
     [RunCmd 0, Deliver 0] @ replicate n (Key ''n'') @ [RunCmd 0, Deliver 0, RunCmd 0, Deliver 0]"

text \<open>A run on the selection \<^verbatim>\<open>Go\<close> alone: probe, confirm the default, start the
  installation, let the worker make its four locked writes, then one poll tick.\<close>

definition evsGo :: "Event list" where
  "evsGo =
     [RunCmd 0, Deliver 0, Key ''y'', RunCmd 0, Deliver 0,
      WorkerStep 0, WorkerStep 0, WorkerStep 0, WorkerStep 0, RunCmd 0, Deliver 0]"

section \<open>Properties\<close>

subsection \<open>VersionProbe\<close>

lemma Split_lines_first:
  "Split_lines s \<noteq> [] \<and> Split_lines s ! 0 = takeWhile (\<lambda>c. c \<noteq> newline) s"
  by (induction s) (auto split: list.splits)

lemma parseVersion_first_line:
  "parseVersion out l = TrimSpace (takeWhile (\<lambda>c. c \<noteq> newline) out)"
  using Split_lines_first [of out] by (simp add: parseVersion_def Let_def)

lemma TrimLeft_spec:
  "\<exists>ps. set ps \<subseteq> set spaceRunes \<and> s = concat ps @ TrimLeft s
        \<and> (\<forall>p \<in> set spaceRunes. \<not> prefix p (TrimLeft s))"
proof (induction s rule: TrimLeft.induct)
  case (1 s)
  show ?case
  proof (cases "find (\<lambda>p. prefix p s) spaceRunes")
    case None
    then have "TrimLeft s = s" by (simp add: TrimLeft.simps)
    moreover from None have "\<forall>p \<in> set spaceRunes. \<not> prefix p s" by (simp add: find_None_iff)
    ultimately have "set [] \<subseteq> set spaceRunes \<and> s = concat [] @ TrimLeft s
        \<and> (\<forall>p \<in> set spaceRunes. \<not> prefix p (TrimLeft s))" by simp
    then show ?thesis by blast
  next
    case (Some p)
    then have p: "p \<in> set spaceRunes" and pre: "prefix p s" by (auto simp: find_Some_iff)
    from Some have t: "TrimLeft s = TrimLeft (drop (length p) s)" by (simp add: TrimLeft.simps)
    from "1.IH" [OF Some] obtain ps where ps: "set ps \<subseteq> set spaceRunes"
      and d: "drop (length p) s = concat ps @ TrimLeft (drop (length p) s)"
      and n: "\<forall>q \<in> set spaceRunes. \<not> prefix q (TrimLeft (drop (length p) s))" by blast
    from pre have "s = p @ drop (length p) s" by (auto simp: prefix_def)
    with d have "s = concat (p # ps) @ TrimLeft s" using t by simp
    with p ps n t have "set (p # ps) \<subseteq> set spaceRunes \<and> s = concat (p # ps) @ TrimLeft s
        \<and> (\<forall>q \<in> set spaceRunes. \<not> prefix q (TrimLeft s))" by simp
    then show ?thesis by blast
  qed
qed

lemma TrimRight_spec:
  "\<exists>ss. set ss \<subseteq> set spaceRunes \<and> s = TrimRight s @ concat ss
        \<and> (\<forall>p \<in> set spaceRunes. \<not> suffix p (TrimRight s))"
proof (induction s rule: TrimRight.induct)
  case (1 s)
  show ?case
  proof (cases "find (\<lambda>p. suffix p s) spaceRunes")
    case None
    then have "TrimRight s = s" by (simp add: TrimRight.simps)
    moreover from None have "\<forall>p \<in> set spaceRunes. \<not> suffix p s" by (simp add: find_None_iff)
    ultimately have "set [] \<subseteq> set spaceRunes \<and> s = TrimRight s @ concat []
        \<and> (\<forall>p \<in> set spaceRunes. \<not> suffix p (TrimRight s))" by simp
    then show ?thesis by blast
  next
    case (Some p)
    then have p: "p \<in> set spaceRunes" and suf: "suffix p s" by (auto simp: find_Some_iff)
    let ?r = "take (length s - length p) s"
    from Some have t: "TrimRight s = TrimRight ?r" by (simp add: TrimRight.simps)
    from "1.IH" [OF Some] obtain ss where ss: "set ss \<subseteq> set spaceRunes"
      and d: "?r = TrimRight ?r @ concat ss"
      and n: "\<forall>q \<in> set spaceRunes. \<not> suffix q (TrimRight ?r)" by blast
    from suf have sp: "s = ?r @ p" by (auto simp: suffix_def)
    have "s = (TrimRight ?r @ concat ss) @ p" by (subst sp, subst d) simp
    then have "s = TrimRight s @ concat (ss @ [p])" using t by simp
    with p ss n t have "set (ss @ [p]) \<subseteq> set spaceRunes \<and> s = TrimRight s @ concat (ss @ [p])
        \<and> (\<forall>q \<in> set spaceRunes. \<not> suffix q (TrimRight s))" by simp
    then show ?thesis by blast
  qed
qed

lemma TrimSpace_spec:
  "\<exists>ps ss. set ps \<subseteq> set spaceRunes \<and> set ss \<subseteq> set spaceRunes
      \<and> s = concat ps @ TrimSpace s @ concat ss
      \<and> (\<forall>p \<in> set spaceRunes. \<not> prefix p (TrimSpace s) \<and> \<not> suffix p (TrimSpace s))"
proof -
  from TrimLeft_spec [of s] obtain ps where ps: "set ps \<subseteq> set spaceRunes"
    and l: "s = concat ps @ TrimLeft s"
    and nl: "\<forall>p \<in> set spaceRunes. \<not> prefix p (TrimLeft s)" by blast
  from TrimRight_spec [of "TrimLeft s"] obtain ss where ss: "set ss \<subseteq> set spaceRunes"
    and r: "TrimLeft s = TrimSpace s @ concat ss"
    and nr: "\<forall>p \<in> set spaceRunes. \<not> suffix p (TrimSpace s)" by (auto simp: TrimSpace_def)
  have "\<not> prefix p (TrimSpace s)" if "p \<in> set spaceRunes" for p
  proof
    assume "prefix p (TrimSpace s)"
    then have "prefix p (TrimSpace s @ concat ss)" by (rule prefix_prefix)
    with r nl that show False by simp
  qed
  with ps ss l r nr show ?thesis by (metis append.assoc)
qed

lemma dom_update_fst: "fst ` set (AList.update k v al) = insert k (fst ` set al)"
  by (induction al) auto

lemma update_all:
  "\<forall>(k, s) \<in> set st. P k s \<Longrightarrow> P l v \<Longrightarrow> \<forall>(k, s) \<in> set (AList.update l v st). P k s"
  by (induction st) auto

lemma checkInstalledLanguages_loop_all:
  "\<forall>(k, s) \<in> set st.
      Language s = k \<and> Error s = []
      \<and> (Installed s, Version s, LatestVersion s) = checkLanguageInstallation env k \<Longrightarrow>
   \<forall>(k, s) \<in> set (checkInstalledLanguages_loop env ls st).
      Language s = k \<and> Error s = []
      \<and> (Installed s, Version s, LatestVersion s) = checkLanguageInstallation env k"
proof (induction ls arbitrary: st)
  case Nil
  then show ?case by simp
next
  case (Cons l ls)
  obtain i v lt where c: "checkLanguageInstallation env l = (i, v, lt)"
    by (cases "checkLanguageInstallation env l") auto
  have "\<forall>(k, s) \<in> set (AList.update l
          \<lparr>Language = l, Installed = i, Version = v, LatestVersion = lt, Error = []\<rparr> st).
      Language s = k \<and> Error s = []
      \<and> (Installed s, Version s, LatestVersion s) = checkLanguageInstallation env k"
    by (rule update_all [OF Cons.prems]) (simp add: c)
  from Cons.IH [OF this] show ?case by (simp add: c)
qed

lemma checkInstalledLanguages_loop_dom:
  "fst ` set (checkInstalledLanguages_loop env ls st) = set ls \<union> fst ` set st"
proof (induction ls arbitrary: st)
  case Nil
  then show ?case by simp
next
  case (Cons l ls)
  obtain i v lt where c: "checkLanguageInstallation env l = (i, v, lt)"
    by (cases "checkLanguageInstallation env l") auto
  show ?case by (simp add: c Cons.IH dom_update_fst)
qed

text \<open>
  C6.  The probe returns a plain triple and never an error.  Each of the five toolchains
  has its detection command and its entry of the static table; an identifier outside
  the five has no detection command and the empty latest version, which is also what
  the table lookup gives for every identifier that is not in the table.  For an
  identifier with no detection command, and for a detection command that fails, the
  result is \<open>installed = false\<close> with both version strings empty.  When the command
  succeeds the installed version is the text before the first line break of its output
  with the white space of Unicode trimmed from both ends, whatever that text is, and
  the latest version is the entry of the table.  Trimming takes white space runes, and
  nothing else, off both ends until neither end is a white space rune.  Every status
  that \<^verbatim>\<open>checkInstalledLanguages\<close> builds carries the probe's triple for its language
  and an empty \<^verbatim>\<open>Error\<close> field, and there is one for every language asked for.
\<close>

theorem probe_never_fails:
  "(ToLower l = ''go'' \<longrightarrow>
      probeCommand env l = Some [''go'', ''version''] \<and> getLatestVersion l = ''1.25.5'')
   \<and> (ToLower l = ''python'' \<longrightarrow>
      probeCommand env l = Some [''python3'', ''--version''] \<and> getLatestVersion l = ''3.13.0'')
   \<and> (ToLower l = ''rust'' \<longrightarrow>
      probeCommand env l = Some [''rustc'', ''--version''] \<and> getLatestVersion l = ''1.81.0'')
   \<and> (ToLower l = ''c++'' \<longrightarrow>
      probeCommand env l =
        Some (if GOOS env = ''darwin'' then [''clang'', ''--version''] else [''g++'', ''--version''])
      \<and> getLatestVersion l = ''14'')
   \<and> (ToLower l = ''java'' \<longrightarrow>
      probeCommand env l = Some [''java'', ''-version''] \<and> getLatestVersion l = ''21'')
   \<and> (ToLower l \<notin> set [''go'', ''python'', ''rust'', ''c++'', ''java''] \<longrightarrow>
      probeCommand env l = None \<and> getLatestVersion l = [])
   \<and> (\<forall>v. map_of latestVersions (ToLower l) = Some v \<longrightarrow> getLatestVersion l = v)
   \<and> (map_of latestVersions (ToLower l) = None \<longrightarrow> getLatestVersion l = [])
   \<and> (probeCommand env l = None \<longrightarrow> checkLanguageInstallation env l = (False, [], []))
   \<and> (\<forall>cmd e. probeCommand env l = Some cmd \<and> CombinedOutput env cmd = Inl e \<longrightarrow>
         checkLanguageInstallation env l = (False, [], []))
   \<and> (\<forall>cmd out. probeCommand env l = Some cmd \<and> CombinedOutput env cmd = Inr out \<longrightarrow>
         checkLanguageInstallation env l =
           (True, TrimSpace (takeWhile (\<lambda>c. c \<noteq> newline) out), getLatestVersion l))
   \<and> (\<exists>ps ss. set ps \<subseteq> set spaceRunes \<and> set ss \<subseteq> set spaceRunes
         \<and> v = concat ps @ TrimSpace v @ concat ss
         \<and> (\<forall>p \<in> set spaceRunes. \<not> prefix p (TrimSpace v) \<and> \<not> suffix p (TrimSpace v)))
   \<and> fst ` set (checkInstalledLanguages env ls) = set ls
   \<and> (\<forall>(k, s) \<in> set (checkInstalledLanguages env ls).
         Language s = k \<and> Error s = []
         \<and> (Installed s, Version s, LatestVersion s) = checkLanguageInstallation env k)"
proof -
  have keys: "(ToLower l = ''go'' \<longrightarrow>
      probeCommand env l = Some [''go'', ''version''] \<and> getLatestVersion l = ''1.25.5'')
   \<and> (ToLower l = ''python'' \<longrightarrow>
      probeCommand env l = Some [''python3'', ''--version''] \<and> getLatestVersion l = ''3.13.0'')
   \<and> (ToLower l = ''rust'' \<longrightarrow>
      probeCommand env l = Some [''rustc'', ''--version''] \<and> getLatestVersion l = ''1.81.0'')
   \<and> (ToLower l = ''c++'' \<longrightarrow>
      probeCommand env l =
        Some (if GOOS env = ''darwin'' then [''clang'', ''--version''] else [''g++'', ''--version''])
      \<and> getLatestVersion l = ''14'')
   \<and> (ToLower l = ''java'' \<longrightarrow>
      probeCommand env l = Some [''java'', ''-version''] \<and> getLatestVersion l = ''21'')
   \<and> (ToLower l \<notin> set [''go'', ''python'', ''rust'', ''c++'', ''java''] \<longrightarrow>
      probeCommand env l = None \<and> getLatestVersion l = [])"
    by (simp add: probeCommand_def getLatestVersion_def latestVersions_def Let_def)
  have table: "(\<forall>v. map_of latestVersions (ToLower l) = Some v \<longrightarrow> getLatestVersion l = v)
   \<and> (map_of latestVersions (ToLower l) = None \<longrightarrow> getLatestVersion l = [])"
    by (simp add: getLatestVersion_def)
  have probe: "(probeCommand env l = None \<longrightarrow> checkLanguageInstallation env l = (False, [], []))
   \<and> (\<forall>cmd e. probeCommand env l = Some cmd \<and> CombinedOutput env cmd = Inl e \<longrightarrow>
         checkLanguageInstallation env l = (False, [], []))
   \<and> (\<forall>cmd out. probeCommand env l = Some cmd \<and> CombinedOutput env cmd = Inr out \<longrightarrow>
         checkLanguageInstallation env l =
           (True, TrimSpace (takeWhile (\<lambda>c. c \<noteq> newline) out), getLatestVersion l))"
    by (simp add: checkLanguageInstallation_def parseVersion_first_line)
  have dom: "fst ` set (checkInstalledLanguages env ls) = set ls"
    by (simp add: checkInstalledLanguages_def checkInstalledLanguages_loop_dom)
  have all: "\<forall>(k, s) \<in> set (checkInstalledLanguages env ls).
         Language s = k \<and> Error s = []
         \<and> (Installed s, Version s, LatestVersion s) = checkLanguageInstallation env k"
    unfolding checkInstalledLanguages_def
    by (rule checkInstalledLanguages_loop_all) simp
  show ?thesis
    by (rule conjI [OF keys [THEN conjunct1]],
        rule conjI [OF keys [THEN conjunct2, THEN conjunct1]],
        rule conjI [OF keys [THEN conjunct2, THEN conjunct2, THEN conjunct1]],
        rule conjI [OF keys [THEN conjunct2, THEN conjunct2, THEN conjunct2, THEN conjunct1]],
        rule conjI [OF keys [THEN conjunct2, THEN conjunct2, THEN conjunct2, THEN conjunct2,
                             THEN conjunct1]],
        rule conjI [OF keys [THEN conjunct2, THEN conjunct2, THEN conjunct2, THEN conjunct2,
                             THEN conjunct2]],
        rule conjI [OF table [THEN conjunct1]],
        rule conjI [OF table [THEN conjunct2]],
        rule conjI [OF probe [THEN conjunct1]],
        rule conjI [OF probe [THEN conjunct2, THEN conjunct1]],
        rule conjI [OF probe [THEN conjunct2, THEN conjunct2]],
        rule conjI [OF TrimSpace_spec [of v]],
        rule conjI [OF dom all])
qed

theorem probe_never_fails_witness:
  "checkLanguageInstallation envGo ''Zig'' = (False, [], [])
   \<and> checkLanguageInstallation envGo ''Python'' = (False, [], [])
   \<and> checkLanguageInstallation envGo ''Go'' = (True, ''go1.20'', ''1.25.5'')
   \<and> checkLanguageInstallation envGo ''C++'' = (True, [], ''14'')
   \<and> getLatestVersion ''Zig'' = []
   \<and> list_all (\<lambda>(k, s). Language s = k \<and> Error s = []
                  \<and> (Installed s, Version s, LatestVersion s) = checkLanguageInstallation envGo k)
        (checkInstalledLanguages envGo [''Go'', ''Zig''])"
proof -
  have low: "ToLower ''Zig'' = ''zig''" "ToLower ''Python'' = ''python''" "ToLower ''Go'' = ''go''"
    "ToLower ''C++'' = ''c++''"
    by (simp_all add: ToLower_def lower_char_def)
  note z = probe_never_fails [of "''Zig''" envGo "[]" "[''Go'', ''Zig'']"]
  note p = probe_never_fails [of "''Python''" envGo "[]" "[]"]
  note g = probe_never_fails [of "''Go''" envGo "[]" "[]"]
  note c = probe_never_fails [of "''C++''" envGo "[]" "[]"]
  have trim: "TrimSpace (takeWhile (\<lambda>c. c \<noteq> newline)
                (''  go1.20 '' @ [CHR 0xC2, CHR 0xA0, CHR 0x0D, newline] @ ''rest'')) = ''go1.20''"
    by code_simp
  have trim0: "TrimSpace (takeWhile (\<lambda>c. c \<noteq> newline) []) = []"
    by code_simp
  have out: "CombinedOutput envGo [''python3'', ''--version''] = Inl ''exit status 1''"
    "CombinedOutput envGo [''go'', ''version'']
       = Inr (''  go1.20 '' @ [CHR 0xC2, CHR 0xA0, CHR 0x0D, newline] @ ''rest'')"
    "CombinedOutput envGo [''g++'', ''--version''] = Inr []"
    "GOOS envGo = ''linux''"
    by (simp_all add: envGo_def)
  from z have zk: "ToLower ''Zig'' \<notin> set [''go'', ''python'', ''rust'', ''c++'', ''java''] \<longrightarrow>
      probeCommand envGo ''Zig'' = None \<and> getLatestVersion ''Zig'' = []"
    by (elim conjE) assumption
  from z have zn: "probeCommand envGo ''Zig'' = None \<longrightarrow>
      checkLanguageInstallation envGo ''Zig'' = (False, [], [])"
    by (elim conjE) assumption
  from z have zall: "\<forall>(k, s) \<in> set (checkInstalledLanguages envGo [''Go'', ''Zig'']).
         Language s = k \<and> Error s = []
         \<and> (Installed s, Version s, LatestVersion s) = checkLanguageInstallation envGo k"
    by (elim conjE) assumption
  from p have pk: "ToLower ''Python'' = ''python'' \<longrightarrow>
      probeCommand envGo ''Python'' = Some [''python3'', ''--version'']
      \<and> getLatestVersion ''Python'' = ''3.13.0''"
    by (elim conjE) assumption
  from p have pf: "\<forall>cmd e. probeCommand envGo ''Python'' = Some cmd \<and> CombinedOutput envGo cmd = Inl e \<longrightarrow>
         checkLanguageInstallation envGo ''Python'' = (False, [], [])"
    by (elim conjE) assumption
  from g have gk: "ToLower ''Go'' = ''go'' \<longrightarrow>
      probeCommand envGo ''Go'' = Some [''go'', ''version''] \<and> getLatestVersion ''Go'' = ''1.25.5''"
    by (elim conjE) assumption
  from g have gs: "\<forall>cmd out. probeCommand envGo ''Go'' = Some cmd \<and> CombinedOutput envGo cmd = Inr out \<longrightarrow>
         checkLanguageInstallation envGo ''Go'' =
           (True, TrimSpace (takeWhile (\<lambda>c. c \<noteq> newline) out), getLatestVersion ''Go'')"
    by (elim conjE) assumption
  from c have ck: "ToLower ''C++'' = ''c++'' \<longrightarrow>
      probeCommand envGo ''C++'' =
        Some (if GOOS envGo = ''darwin'' then [''clang'', ''--version''] else [''g++'', ''--version''])
      \<and> getLatestVersion ''C++'' = ''14''"
    by (elim conjE) assumption
  from c have cs: "\<forall>cmd out. probeCommand envGo ''C++'' = Some cmd \<and> CombinedOutput envGo cmd = Inr out \<longrightarrow>
         checkLanguageInstallation envGo ''C++'' =
           (True, TrimSpace (takeWhile (\<lambda>c. c \<noteq> newline) out), getLatestVersion ''C++'')"
    by (elim conjE) assumption
  have 1: "checkLanguageInstallation envGo ''Zig'' = (False, [], [])"
    and 5: "getLatestVersion ''Zig'' = []"
    using zk zn low(1) by simp_all
  have 2: "checkLanguageInstallation envGo ''Python'' = (False, [], [])"
    using pk pf low(2) out(1) by simp
  have 3: "checkLanguageInstallation envGo ''Go'' = (True, ''go1.20'', ''1.25.5'')"
    using gk gs low(3) out(2) trim by simp
  have 4: "checkLanguageInstallation envGo ''C++'' = (True, [], ''14'')"
    using ck cs low(4) out(3) out(4) trim0 by simp
  have 6: "list_all (\<lambda>(k, s). Language s = k \<and> Error s = []
                  \<and> (Installed s, Version s, LatestVersion s) = checkLanguageInstallation envGo k)
        (checkInstalledLanguages envGo [''Go'', ''Zig''])"
    using zall unfolding list_all_iff .
  from 1 2 3 4 5 6 show ?thesis by (intro conjI)
qed

subsection \<open>The default decision\<close>

text \<open>
  C5.  The confirm-default decision is Install for a toolchain that is not installed,
  Update for one that is installed in a version that differs from the latest one, and
  Skip for one that is installed in the latest version.
\<close>

theorem getDefaultChoice_mapping:
  "(\<not> Installed s \<longrightarrow> getDefaultChoice s = ''install'')
   \<and> (Installed s \<and> Version s \<noteq> LatestVersion s \<longrightarrow> getDefaultChoice s = ''update'')
   \<and> (Installed s \<and> Version s = LatestVersion s \<longrightarrow> getDefaultChoice s = ''skip'')"
  by (simp add: getDefaultChoice_def)

theorem getDefaultChoice_mapping_witness:
  "getDefaultChoice \<lparr>Language = ''go'', Installed = False, Version = [], LatestVersion = [], Error = []\<rparr>
     = ''install''
   \<and> getDefaultChoice \<lparr>Language = ''go'', Installed = True, Version = ''1.20'',
                        LatestVersion = ''1.25.5'', Error = []\<rparr> = ''update''
   \<and> getDefaultChoice \<lparr>Language = ''go'', Installed = True, Version = ''1.25.5'',
                        LatestVersion = ''1.25.5'', Error = []\<rparr> = ''skip''"
  using getDefaultChoice_mapping [of "\<lparr>Language = ''go'', Installed = False, Version = [], LatestVersion = [], Error = []\<rparr>"]
        getDefaultChoice_mapping [of "\<lparr>Language = ''go'', Installed = True, Version = ''1.20'', LatestVersion = ''1.25.5'', Error = []\<rparr>"]
        getDefaultChoice_mapping [of "\<lparr>Language = ''go'', Installed = True, Version = ''1.25.5'', LatestVersion = ''1.25.5'', Error = []\<rparr>"]
  by simp

subsection \<open>The control invariant is kept\<close>

lemma inv1_init: "inv1 env sel (initWorld sel)"
  by (simp add: inv1_def phaseChecking_def initWorld_def NewDownloadInstallModel_def Init_def)

lemma View_other:
  "\<exists>lp. m' = m\<lparr>languageProgress := lp\<rparr>" if "View m h = (m', h')"
proof (cases "state m = ''installing''")
  case True
  with that show ?thesis by (auto simp: View_def split: prod.splits)
next
  case False
  with that have "m' = m\<lparr>languageProgress := languageProgress m\<rparr>" by (simp add: View_def)
  then show ?thesis by blast
qed

lemma dispatch_Inr:
  assumes "dispatch msg w = Inr w'"
  obtains m h cmd lp h' where "Update (model w) (heap w) msg = Inr (m, h, cmd)"
    and "w' = w\<lparr>model := m\<lparr>languageProgress := lp\<rparr>, heap := h', pending := pending w @ cmd\<rparr>"
proof -
  from assms obtain m h cmd where u: "Update (model w) (heap w) msg = Inr (m, h, cmd)"
    by (auto simp: dispatch_def split: sum.splits)
  obtain m' h' where v: "View m h = (m', h')" by (cases "View m h") auto
  from View_other [OF v] obtain lp where "m' = m\<lparr>languageProgress := lp\<rparr>" by blast
  with assms u v have "w' = w\<lparr>model := m\<lparr>languageProgress := lp\<rparr>, heap := h', pending := pending w @ cmd\<rparr>"
    by (simp add: dispatch_def)
  with u show thesis by (rule that)
qed

lemma take_Suc_set: "i < length xs \<Longrightarrow> set (take (Suc i) xs) = insert (xs ! i) (set (take i xs))"
  by (simp add: take_Suc_conv_app_nth)

lemma recordChoice_inv1:
  assumes i: "inv1 env sel w" and p: "state (model w) = ''prompting''"
    and cl: "currentLanguage (model w) = Inr lang"
    and rc: "recordChoice (model w) lang ch = (m, cmd)"
  shows "inv1 env sel (w\<lparr>model := m\<lparr>languageProgress := lp\<rparr>, heap := h', pending := pending w @ cmd\<rparr>)
         \<and> advances (state (model w)) (state m)"
proof -
  from i p have pp: "phasePrompting sel w" and s: "selectedLanguages (model w) = sel"
    by (auto simp: inv1_def phaseChecking_def phaseInstalling_def)
  from cl s have lt: "currentIndex (model w) < length sel" and lang: "lang = sel ! currentIndex (model w)"
    by (auto simp: currentLanguage_def split: if_splits)
  show ?thesis
  proof (cases "Suc (currentIndex (model w)) \<ge> length sel")
    case True
    with lt have e: "Suc (currentIndex (model w)) = length sel" by simp
    from True rc s have m: "m = (model w)\<lparr>userChoices := AList.update lang ch (userChoices (model w)),
          currentIndex := Suc (currentIndex (model w)), state := ''installing''\<rparr>"
      and c: "cmd = [InstallSelected sel (AList.update lang ch (userChoices (model w))) (installationStatus (model w)), ProgressUpdateTicker]"
      by (auto simp: recordChoice_def Let_def)
    have "phaseInstalling sel (w\<lparr>model := m\<lparr>languageProgress := lp\<rparr>, heap := h', pending := pending w @ cmd\<rparr>)"
      using pp lt e lang take_Suc_set [OF lt]
      by (auto simp: phaseInstalling_def phasePrompting_def m c dom_update_fst filter_empty_conv)
    then show ?thesis using s p by (simp add: inv1_def m advances_def)
  next
    case False
    from False rc s have m: "m = (model w)\<lparr>userChoices := AList.update lang ch (userChoices (model w)),
          currentIndex := Suc (currentIndex (model w))\<rparr>"
      and c: "cmd = []"
      by (auto simp: recordChoice_def Let_def)
    have "phasePrompting sel (w\<lparr>model := m\<lparr>languageProgress := lp\<rparr>, heap := h', pending := pending w @ cmd\<rparr>)"
      using pp lt False lang take_Suc_set [OF lt]
      by (auto simp: phasePrompting_def m c dom_update_fst)
    then show ?thesis using s p by (simp add: inv1_def m advances_def)
  qed
qed

lemma inv1_frame:
  assumes "inv1 env sel w" and "\<forall>c \<in> set cmd. c = Quit"
  shows "inv1 env sel (w\<lparr>model := (model w)\<lparr>languageProgress := lp\<rparr>, heap := h', pending := pending w @ cmd\<rparr>)"
proof -
  from assms(2) have f: "filter isInstall cmd = []" "filter (\<lambda>c. c \<noteq> Quit) cmd = []"
    by (auto simp: filter_empty_conv)
  from assms(1) consider "phaseChecking env sel w" | "phasePrompting sel w" | "phaseInstalling sel w"
    by (auto simp: inv1_def)
  then show ?thesis
  proof cases
    case 1
    then have "phaseChecking env sel (w\<lparr>model := (model w)\<lparr>languageProgress := lp\<rparr>, heap := h', pending := pending w @ cmd\<rparr>)"
      using assms(2) f by (auto simp: phaseChecking_def)
    then show ?thesis using assms(1) by (simp add: inv1_def)
  next
    case 2
    then have "phasePrompting sel (w\<lparr>model := (model w)\<lparr>languageProgress := lp\<rparr>, heap := h', pending := pending w @ cmd\<rparr>)"
      using assms(2) by (auto simp: phasePrompting_def)
    then show ?thesis using assms(1) by (simp add: inv1_def)
  next
    case 3
    then have "phaseInstalling sel (w\<lparr>model := (model w)\<lparr>languageProgress := lp\<rparr>, heap := h', pending := pending w @ cmd\<rparr>)"
      using assms(2) f by (auto simp: phaseInstalling_def)
    then show ?thesis using assms(1) by (simp add: inv1_def)
  qed
qed

lemma advances_refl: "advances s s"
  by (simp add: advances_def)

lemma Update_key_cases:
  assumes "Update m0 h0 (KeyMsg k) = Inr (m, h, cmd)"
  shows "(m = m0 \<and> (cmd = [] \<or> cmd = [Quit]))
         \<or> (state m0 = ''prompting'' \<and>
              (\<exists>lang ch. currentLanguage m0 = Inr lang \<and> recordChoice m0 lang ch = (m, cmd)))"
  using assms by (auto split: if_splits sum.splits option.splits prod.splits)

lemma inv1_dispatch_key:
  assumes i: "inv1 env sel w" and d: "dispatch (KeyMsg k) w = Inr w'"
  shows "inv1 env sel w' \<and> advances (state (model w)) (state (model w'))"
proof -
  from d obtain m h cmd lp h' where u: "Update (model w) (heap w) (KeyMsg k) = Inr (m, h, cmd)"
    and w': "w' = w\<lparr>model := m\<lparr>languageProgress := lp\<rparr>, heap := h', pending := pending w @ cmd\<rparr>"
    by (rule dispatch_Inr)
  from Update_key_cases [OF u] consider
      (same) "m = model w" "\<forall>c \<in> set cmd. c = Quit"
    | (rec) lang ch where "state (model w) = ''prompting''" "currentLanguage (model w) = Inr lang"
        "recordChoice (model w) lang ch = (m, cmd)"
    by auto
  then show ?thesis
  proof cases
    case same
    then show ?thesis using inv1_frame [OF i, where cmd=cmd and lp=lp and h'=h'] w'
      by (auto simp: advances_refl)
  next
    case rec
    from recordChoice_inv1 [OF i rec, where lp=lp and h'=h'] show ?thesis using w' by simp
  qed
qed

lemma inv1_dispatch_other:
  assumes i: "inv1 env sel w" and d: "dispatch OtherMsg w = Inr w'"
  shows "inv1 env sel w' \<and> advances (state (model w)) (state (model w'))"
proof -
  from d obtain m h cmd lp h' where u: "Update (model w) (heap w) OtherMsg = Inr (m, h, cmd)"
    and w': "w' = w\<lparr>model := m\<lparr>languageProgress := lp\<rparr>, heap := h', pending := pending w @ cmd\<rparr>"
    by (rule dispatch_Inr)
  from u have "m = model w" "cmd = []" by auto
  then show ?thesis using inv1_frame [OF i, where cmd=cmd and lp=lp and h'=h'] w' by (auto simp: advances_refl)
qed

lemma set_remove_nth: "set (remove_nth i xs) \<subseteq> set xs"
  by (auto simp: remove_nth_def dest: in_set_takeD in_set_dropD)

lemma filter_remove_nth_le: "length (filter P (remove_nth i xs)) \<le> length (filter P xs)"
proof -
  have "length (filter P (take i xs)) + length (filter P (drop (Suc i) xs))
        \<le> length (filter P (take i xs)) + length (filter P (drop i xs))"
    by (cases "i < length xs") (simp_all add: Cons_nth_drop_Suc [symmetric])
  also have "\<dots> = length (filter P (take i xs @ drop i xs))" by (simp only: filter_append length_append)
  finally show ?thesis by (simp add: remove_nth_def)
qed

lemma filter_remove_nth_hit:
  assumes "i < length xs" and "P (xs ! i)"
  shows "Suc (length (filter P (remove_nth i xs))) = length (filter P xs)"
proof -
  have "xs = take i xs @ xs ! i # drop (Suc i) xs"
    using assms(1) by (simp add: id_take_nth_drop [symmetric])
  then have "length (filter P xs) = length (filter P (take i xs @ xs ! i # drop (Suc i) xs))" by simp
  also have "\<dots> = Suc (length (filter P (remove_nth i xs)))"
    using assms(2) by (simp add: remove_nth_def)
  finally show ?thesis by simp
qed

lemma checkInstalledLanguages_covers:
  "l \<in> set ls \<Longrightarrow> map_of (checkInstalledLanguages env ls) l \<noteq> None"
proof -
  assume "l \<in> set ls"
  then have "l \<in> fst ` set (checkInstalledLanguages env ls)"
    by (simp add: checkInstalledLanguages_def checkInstalledLanguages_loop_dom)
  then show ?thesis by (simp add: map_of_eq_None_iff)
qed

lemma phaseInstalling_upd:
  assumes "phaseInstalling sel w" and "s' = ''installing'' \<or> s' = ''complete''"
    and "set ms \<subseteq> set (msgs w)" and "\<forall>c \<in> set cmd. c = ProgressUpdateTicker"
  shows "phaseInstalling sel (w\<lparr>msgs := ms, model := (model w)\<lparr>state := s', languageProgress := lp\<rparr>,
           heap := h', pending := pending w @ cmd\<rparr>)"
proof -
  from assms(4) have f: "filter isInstall cmd = []" by (auto simp: filter_empty_conv)
  show ?thesis
    using assms(1) assms(2) assms(3) assms(4) unfolding phaseInstalling_def
    by (simp add: f subset_iff ball_Un)
qed

lemma inv1_deliver:
  assumes i: "inv1 env sel w" and j: "j < length (msgs w)"
    and d: "dispatch (msgs w ! j) (w\<lparr>msgs := remove_nth j (msgs w)\<rparr>) = Inr w'"
  shows "inv1 env sel w' \<and> advances (state (model w)) (state (model w'))"
proof -
  let ?w1 = "w\<lparr>msgs := remove_nth j (msgs w)\<rparr>"
  from d obtain m h cmd lp h' where u: "Update (model w) (heap w) (msgs w ! j) = Inr (m, h, cmd)"
    and w': "w' = ?w1\<lparr>model := m\<lparr>languageProgress := lp\<rparr>, heap := h', pending := pending ?w1 @ cmd\<rparr>"
    by (rule dispatch_Inr [where w = ?w1, simplified]) simp
  from i have s: "selectedLanguages (model w) = sel" by (simp add: inv1_def)
  from j have mem: "msgs w ! j \<in> set (msgs w)" by simp
  from i consider "phaseChecking env sel w" | "phasePrompting sel w" | "phaseInstalling sel w"
    by (auto simp: inv1_def)
  then show ?thesis
  proof cases
    case 1
    with mem have msg: "msgs w ! j = InstallationStatusMsg (checkInstalledLanguages env sel)"
      by (simp add: phaseChecking_def)
    from 1 have le: "length (filter (\<lambda>c. c \<noteq> Quit) (pending w)) + length (msgs w) \<le> 1"
      by (simp add: phaseChecking_def)
    with j have one: "length (msgs w) = 1" and "length (filter (\<lambda>c. c \<noteq> Quit) (pending w)) = 0"
      by linarith+
    then have nq: "filter (\<lambda>c. c \<noteq> Quit) (pending w) = []" by simp
    from one j have r: "remove_nth j (msgs w) = []" by (cases "msgs w") (auto simp: remove_nth_def)
    from u msg have m: "m = (model w)\<lparr>installationStatus := checkInstalledLanguages env sel, state := ''prompting''\<rparr>"
      and c: "cmd = []" by auto
    from nq have q: "\<forall>c \<in> set (pending w). c = Quit" by (auto simp: filter_empty_conv)
    have "phasePrompting sel w'"
      using 1 q r by (auto simp: phasePrompting_def phaseChecking_def w' m c checkInstalledLanguages_covers)
    moreover have "state (model w) = ''checking''" using 1 by (simp add: phaseChecking_def)
    ultimately show ?thesis using s by (simp add: inv1_def w' m advances_def)
  next
    case 2
    with j show ?thesis by (simp add: phasePrompting_def)
  next
    case 3
    have sub: "set (remove_nth j (msgs w)) \<subseteq> set (msgs w)" by (rule set_remove_nth)
    from 3 have st: "state (model w) = ''installing'' \<or> state (model w) = ''complete''"
      by (simp add: phaseInstalling_def)
    from 3 mem consider "msgs w ! j = ProgressTickMsg" | t where "msgs w ! j = InitProgressMsg t"
      by (auto simp: phaseInstalling_def)
    then obtain s' where m: "m\<lparr>languageProgress := lp\<rparr> = (model w)\<lparr>state := s', languageProgress := lp\<rparr>"
      and s': "s' = state (model w) \<or> s' = ''complete''"
      and c: "\<forall>c \<in> set cmd. c = ProgressUpdateTicker"
    proof cases
      case 1
      show ?thesis
      proof (cases "allComplete_loop (heap w) (languageProgress (model w)) True")
        case True
        with u 1 have "m = (model w)\<lparr>state := ''complete''\<rparr>" "cmd = []" by auto
        then show ?thesis by (intro that [of "''complete''"]) auto
      next
        case False
        with u 1 have "m = model w" "cmd = [ProgressUpdateTicker]" by auto
        then show ?thesis by (intro that [of "state (model w)"]) auto
      qed
    next
      case 2
      with u have "m = (model w)\<lparr>languageProgress := t\<rparr>" "cmd = [ProgressUpdateTicker]" by auto
      then show ?thesis by (intro that [of "state (model w)"]) auto
    qed
    from s' st have s'': "s' = ''installing'' \<or> s' = ''complete''" by auto
    have w'': "w' = w\<lparr>msgs := remove_nth j (msgs w),
                      model := (model w)\<lparr>state := s', languageProgress := lp\<rparr>, heap := h',
                      pending := pending w @ cmd\<rparr>"
      using w' m by simp
    have "phaseInstalling sel w'"
      unfolding w'' by (rule phaseInstalling_upd [OF 3 s'' sub c])
    moreover have "advances (state (model w)) s'"
      using s' st by (elim disjE) (simp_all add: advances_def)
    ultimately show ?thesis using s by (simp add: inv1_def w'')
  qed
qed

lemma inv1_runCmd:
  assumes i: "inv1 env sel w" and j: "j < length (pending w)"
    and d: "runCmd env (pending w ! j) (w\<lparr>pending := remove_nth j (pending w)\<rparr>) = Inr w'"
  shows "inv1 env sel w' \<and> model w' = model w"
proof -
  let ?w1 = "w\<lparr>pending := remove_nth j (pending w)\<rparr>"
  from i have s: "selectedLanguages (model w) = sel" by (simp add: inv1_def)
  from j have mem: "pending w ! j \<in> set (pending w)" by simp
  have sub: "set (remove_nth j (pending w)) \<subseteq> set (pending w)" by (rule set_remove_nth)
  from d have mw: "model w' = model w"
    by (cases "pending w ! j") (auto split: prod.splits sum.splits)
  from i consider "phaseChecking env sel w" | "phasePrompting sel w" | "phaseInstalling sel w"
    by (auto simp: inv1_def)
  then have "phaseChecking env sel w' \<or> phasePrompting sel w' \<or> phaseInstalling sel w'"
  proof cases
    case 1
    with mem consider "pending w ! j = Quit" | "pending w ! j = CheckInstalled sel"
      by (auto simp: phaseChecking_def)
    then have "phaseChecking env sel w'"
    proof cases
      case 1
      with d have w': "w' = ?w1\<lparr>quitting := True\<rparr>" by simp
      show ?thesis
        using \<open>phaseChecking env sel w\<close> sub
          filter_remove_nth_le [of "\<lambda>c. c \<noteq> Quit" j "pending w"]
        by (auto simp: phaseChecking_def w')
    next
      case 2
      with d have w': "w' = ?w1\<lparr>msgs := msgs w @ [InstallationStatusMsg (checkInstalledLanguages env sel)]\<rparr>"
        by simp
      from 2 have "pending w ! j \<noteq> Quit" by simp
      from filter_remove_nth_hit [of j "pending w" "\<lambda>c. c \<noteq> Quit", OF j this]
      have hit: "Suc (length (filter (\<lambda>c. c \<noteq> Quit) (remove_nth j (pending w))))
                 = length (filter (\<lambda>c. c \<noteq> Quit) (pending w))" .
      from \<open>phaseChecking env sel w\<close>
      have le: "length (filter (\<lambda>c. c \<noteq> Quit) (pending w)) + length (msgs w) \<le> 1"
        by (simp add: phaseChecking_def)
      from hit le have "length (filter (\<lambda>c. c \<noteq> Quit) (remove_nth j (pending w))) = 0"
        and "length (msgs w) = 0" by linarith+
      then have z: "filter (\<lambda>c. c \<noteq> Quit) (remove_nth j (pending w)) = []" "msgs w = []"
        by simp_all
      show ?thesis
        using \<open>phaseChecking env sel w\<close> sub z
        by (auto simp: phaseChecking_def w')
    qed
    then show ?thesis by simp
  next
    case 2
    with mem have "pending w ! j = Quit" by (simp add: phasePrompting_def)
    with d have w': "w' = ?w1\<lparr>quitting := True\<rparr>" by simp
    have "phasePrompting sel w'" using 2 sub by (auto simp: phasePrompting_def w')
    then show ?thesis by simp
  next
    case 3
    let ?I = "InstallSelected sel (userChoices (model w)) (installationStatus (model w))"
    from 3 mem consider "pending w ! j = Quit" | "pending w ! j = ProgressUpdateTicker"
      | "pending w ! j = ?I"
      by (auto simp: phaseInstalling_def)
    then have "phaseInstalling sel w'"
    proof cases
      case 1
      with d have w': "w' = ?w1\<lparr>quitting := True\<rparr>" by simp
      show ?thesis
        using 3 sub filter_remove_nth_le [of isInstall j "pending w"]
        by (auto simp: phaseInstalling_def w' filter_empty_conv)
    next
      case 2
      with d have w': "w' = ?w1\<lparr>msgs := msgs w @ [ProgressTickMsg]\<rparr>" by simp
      show ?thesis
        using 3 sub filter_remove_nth_le [of isInstall j "pending w"]
        by (auto simp: phaseInstalling_def w' filter_empty_conv)
    next
      case 3
      then have "isInstall (pending w ! j)" by simp
      from filter_remove_nth_hit [of j "pending w" isInstall, OF j this]
      have hit: "Suc (length (filter isInstall (remove_nth j (pending w))))
                 = length (filter isInstall (pending w))" .
      from \<open>phaseInstalling sel w\<close> have "length (filter isInstall (pending w)) \<le> 1"
        by (simp add: phaseInstalling_def)
      with hit have "length (filter isInstall (remove_nth j (pending w))) = 0" by linarith
      then have z: "filter isInstall (remove_nth j (pending w)) = []" by simp
      from d 3 obtain pt h r ws where
        w': "w' = ?w1\<lparr>heap := h, workers := workers w @ ws, results := r,
                      msgs := msgs w @ [InitProgressMsg pt]\<rparr>"
        by (auto split: prod.splits sum.splits)
      show ?thesis
        using \<open>phaseInstalling sel w\<close> sub z
        by (auto simp: phaseInstalling_def w')
    qed
    then show ?thesis by simp
  qed
  with s mw show ?thesis by (simp add: inv1_def)
qed

lemma inv1_workerStep:
  assumes i: "inv1 env sel w" and j: "j < length (workers w)"
  shows "inv1 env sel (w\<lparr>workers := ws, heap := h, results := r\<rparr>)"
proof -
  from j have ne: "workers w \<noteq> []" by auto
  with i have "phaseInstalling sel w" by (auto simp: inv1_def phaseChecking_def phasePrompting_def)
  with ne have "phaseInstalling sel (w\<lparr>workers := ws, heap := h, results := r\<rparr>)"
    by (auto simp: phaseInstalling_def)
  with i show ?thesis by (simp add: inv1_def)
qed

lemma inv1_step:
  assumes i: "inv1 env sel w" and st: "step env ev w = Inr w'"
  shows "inv1 env sel w' \<and> advances (state (model w)) (state (model w'))"
proof (cases "quitting w")
  case True
  with st i show ?thesis by (simp add: step_def advances_refl)
next
  case False
  show ?thesis
  proof (cases ev)
    case (RunCmd j)
    show ?thesis
    proof (cases "j < length (pending w)")
      case True
      with st False RunCmd inv1_runCmd [OF i True, of w'] show ?thesis
        by (simp add: step_def advances_refl)
    next
      case no: False
      with st False RunCmd i show ?thesis by (simp add: step_def advances_refl)
    qed
  next
    case (Deliver j)
    show ?thesis
    proof (cases "j < length (msgs w)")
      case True
      with st False Deliver inv1_deliver [OF i True, of w'] show ?thesis
        by (simp add: step_def)
    next
      case no: False
      with st False Deliver i show ?thesis by (simp add: step_def advances_refl)
    qed
  next
    case (Key k)
    with st False inv1_dispatch_key [OF i, of k w'] show ?thesis by (simp add: step_def)
  next
    case Other
    with st False inv1_dispatch_other [OF i, of w'] show ?thesis by (simp add: step_def)
  next
    case (WorkerStep j)
    show ?thesis
    proof (cases "j < length (workers w)")
      case True
      with st False WorkerStep inv1_workerStep [OF i True] show ?thesis
        by (auto simp: step_def advances_refl split: prod.splits)
    next
      case no: False
      with st False WorkerStep i show ?thesis by (simp add: step_def advances_refl)
    qed
  qed
qed

lemma inv1_exec:
  "inv1 env sel w \<Longrightarrow> exec env evs w = Inr w' \<Longrightarrow> inv1 env sel w'"
proof (induction evs arbitrary: w)
  case Nil
  then show ?case by simp
next
  case (Cons ev evs)
  from Cons.prems(2) obtain w1 where s: "step env ev w = Inr w1" and e: "exec env evs w1 = Inr w'"
    by (auto split: sum.splits)
  from inv1_step [OF Cons.prems(1) s] have "inv1 env sel w1" by simp
  from Cons.IH [OF this e] show ?case .
qed

subsection \<open>No panic for a non-empty selection\<close>

lemma makeTrackers_dom:
  "makeTrackers langs choices (pt, h) = (pt', h') \<Longrightarrow>
   fst ` set pt' = fst ` set pt \<union> {l \<in> set langs. lookup_str choices l \<noteq> ''skip''}"
proof (induction langs arbitrary: pt h)
  case Nil
  then show ?case by simp
next
  case (Cons l ls)
  show ?case
  proof (cases "lookup_str choices l \<noteq> ''skip''")
    case True
    with Cons.prems have "makeTrackers ls choices (AList.update l (length h) pt, h @ [newTracker l]) = (pt', h')"
      by simp
    from Cons.IH [OF this] True show ?thesis by (auto simp: dom_update_fst)
  next
    case False
    with Cons.prems have "makeTrackers ls choices (pt, h) = (pt', h')" by simp
    from Cons.IH [OF this] False show ?thesis by auto
  qed
qed

lemma startWorkers_ok:
  "\<forall>l \<in> set langs. lookup_str choices l \<noteq> ''skip'' \<longrightarrow> map_of pt l \<noteq> None \<Longrightarrow>
   \<exists>r' ws'. startWorkers env langs choices pt (r, ws) = Inr (r', ws')"
proof (induction langs arbitrary: r ws)
  case Nil
  then show ?case by simp
next
  case (Cons l ls)
  then show ?case by (cases "map_of pt l") (auto simp: Let_def)
qed

lemma runCmd_install_ok:
  "\<exists>w'. runCmd env (InstallSelected langs choices status) w = Inr w'"
proof -
  obtain pt h where mt: "makeTrackers langs choices ([], heap w) = (pt, h)"
    by (cases "makeTrackers langs choices ([], heap w)") auto
  from makeTrackers_dom [OF mt]
  have "\<forall>l \<in> set langs. lookup_str choices l \<noteq> ''skip'' \<longrightarrow> map_of pt l \<noteq> None"
    by (auto simp: map_of_eq_None_iff)
  from startWorkers_ok [OF this, of env "[]" "[]"] show ?thesis
    using mt by auto
qed

lemma runCmd_ok: "\<exists>w'. runCmd env c w = Inr w'"
  using runCmd_install_ok by (cases c) auto

lemma dispatch_ok:
  assumes "Update (model w) (heap w) msg = Inr r"
  shows "\<exists>w'. dispatch msg w = Inr w'"
  using assms by (cases r) (auto simp: dispatch_def split: prod.splits)

lemma Update_key_ok:
  assumes "state m = ''prompting'' \<longrightarrow>
             currentIndex m < length (selectedLanguages m)
             \<and> map_of (installationStatus m) (selectedLanguages m ! currentIndex m) \<noteq> None"
  shows "\<exists>r. Update m h (KeyMsg k) = Inr r"
proof (cases "state m = ''prompting''")
  case True
  with assms obtain st where
    "currentLanguage m = Inr (selectedLanguages m ! currentIndex m)"
    "map_of (installationStatus m) (selectedLanguages m ! currentIndex m) = Some st"
    by (auto simp: currentLanguage_def)
  then show ?thesis by (simp split: prod.splits)
next
  case False
  then show ?thesis by simp
qed

lemma inv1_key_ok:
  assumes i: "inv1 env sel w" and ne: "sel \<noteq> []"
  shows "\<exists>w'. dispatch (KeyMsg k) w = Inr w'"
proof -
  have "state (model w) = ''prompting'' \<longrightarrow>
          currentIndex (model w) < length (selectedLanguages (model w))
          \<and> map_of (installationStatus (model w))
                (selectedLanguages (model w) ! currentIndex (model w)) \<noteq> None"
  proof
    assume p: "state (model w) = ''prompting''"
    with i have pp: "phasePrompting sel w" and s: "selectedLanguages (model w) = sel"
      by (simp_all add: inv1_def phaseChecking_def phaseInstalling_def)
    from pp ne have lt: "currentIndex (model w) < length sel" by (simp add: phasePrompting_def)
    then have "sel ! currentIndex (model w) \<in> set sel" by simp
    with pp have "map_of (installationStatus (model w)) (sel ! currentIndex (model w)) \<noteq> None"
      unfolding phasePrompting_def by blast
    with lt s show "currentIndex (model w) < length (selectedLanguages (model w))
          \<and> map_of (installationStatus (model w))
                (selectedLanguages (model w) ! currentIndex (model w)) \<noteq> None" by simp
  qed
  from Update_key_ok [OF this] obtain r where "Update (model w) (heap w) (KeyMsg k) = Inr r" by blast
  then show ?thesis by (rule dispatch_ok)
qed

lemma inv1_msgs_kinds:
  assumes i: "inv1 env sel w" and mem: "x \<in> set (msgs w)"
  shows "(\<exists>s. x = InstallationStatusMsg s) \<or> x = ProgressTickMsg \<or> (\<exists>t. x = InitProgressMsg t)"
proof -
  from i consider "phaseChecking env sel w" | "phasePrompting sel w" | "phaseInstalling sel w"
    unfolding inv1_def by blast
  then show ?thesis
  proof cases
    case 1
    then have "\<forall>x \<in> set (msgs w). x = InstallationStatusMsg (checkInstalledLanguages env sel)"
      by (simp add: phaseChecking_def)
    with mem show ?thesis by blast
  next
    case 2
    then have "msgs w = []" by (simp add: phasePrompting_def)
    with mem show ?thesis by simp
  next
    case 3
    then have "\<forall>x \<in> set (msgs w). x = ProgressTickMsg \<or> (\<exists>t. x = InitProgressMsg t)"
      by (simp add: phaseInstalling_def)
    with mem show ?thesis by blast
  qed
qed

lemma inv1_deliver_ok:
  assumes i: "inv1 env sel w" and j: "j < length (msgs w)"
  shows "\<exists>w'. dispatch (msgs w ! j) (w\<lparr>msgs := remove_nth j (msgs w)\<rparr>) = Inr w'"
proof -
  from j have mem: "msgs w ! j \<in> set (msgs w)" by simp
  from inv1_msgs_kinds [OF i mem]
  have "\<exists>r. Update (model w) (heap w) (msgs w ! j) = Inr r"
    by (elim disjE exE) simp_all
  then obtain r where "Update (model (w\<lparr>msgs := remove_nth j (msgs w)\<rparr>))
      (heap (w\<lparr>msgs := remove_nth j (msgs w)\<rparr>)) (msgs w ! j) = Inr r" by auto
  then show ?thesis by (rule dispatch_ok)
qed

lemma inv1_step_ok:
  assumes i: "inv1 env sel w" and ne: "sel \<noteq> []"
  shows "\<exists>w'. step env ev w = Inr w'"
proof (cases ev)
  case (RunCmd j)
  then show ?thesis using runCmd_ok by (simp add: step_def)
next
  case (Deliver j)
  then show ?thesis using inv1_deliver_ok [OF i] by (simp add: step_def)
next
  case (Key k)
  then show ?thesis using inv1_key_ok [OF i ne] by (simp add: step_def)
next
  case Other
  then show ?thesis by (simp add: step_def dispatch_def split: prod.splits)
next
  case (WorkerStep j)
  then show ?thesis by (simp add: step_def split: prod.splits)
qed

lemma inv1_exec_ok:
  "inv1 env sel w \<Longrightarrow> sel \<noteq> [] \<Longrightarrow> \<exists>w'. exec env evs w = Inr w'"
proof (induction evs arbitrary: w)
  case Nil
  then show ?case by simp
next
  case (Cons ev evs)
  from inv1_step_ok [OF Cons.prems] obtain w1 where s: "step env ev w = Inr w1" by blast
  from inv1_step [OF Cons.prems(1) s] have "inv1 env sel w1" by simp
  from Cons.IH [OF this Cons.prems(2)] s show ?case by simp
qed

subsection \<open>The order of the states\<close>

lemma trace_hd: "\<exists>t. trace env evs w = state (model w) # t"
  by (cases evs) auto

lemma trace_last:
  "exec env evs w = Inr w' \<Longrightarrow> last (trace env evs w) = state (model w')"
proof (induction evs arbitrary: w)
  case Nil
  then show ?case by simp
next
  case (Cons ev evs)
  from Cons.prems obtain w1 where s: "step env ev w = Inr w1" and e: "exec env evs w1 = Inr w'"
    by (auto split: sum.splits)
  from trace_hd [of env evs w1] obtain t where t: "trace env evs w1 = state (model w1) # t" by blast
  from Cons.IH [OF e] s t show ?case by simp
qed

lemma inv1_state:
  "inv1 env sel w \<Longrightarrow> state (model w) \<in> set allStates"
  by (auto simp: inv1_def phaseChecking_def phasePrompting_def phaseInstalling_def allStates_def)

lemma statesFrom_simps:
  "statesFrom ''checking'' = [''checking'', ''prompting'', ''installing'', ''complete'']"
  "statesFrom ''prompting'' = [''prompting'', ''installing'', ''complete'']"
  "statesFrom ''installing'' = [''installing'', ''complete'']"
  "statesFrom ''complete'' = [''complete'']"
  by (simp_all add: statesFrom_def allStates_def)

lemma advances_statesFrom:
  assumes "s \<in> set allStates" and "advances s s'" and "s' \<noteq> s"
  shows "statesFrom s = s # statesFrom s'"
  using assms unfolding advances_def allStates_def
  by (elim disjE conjE) (simp_all add: statesFrom_simps)

lemma statesFrom_hd:
  assumes "s \<in> set allStates"
  shows "\<exists>r. statesFrom s = s # r"
  using assms unfolding allStates_def by (auto simp: statesFrom_simps)

lemma trace_ordered:
  "inv1 env sel w \<Longrightarrow>
   \<exists>n. 0 < n \<and> remdups_adj (trace env evs w) = take n (statesFrom (state (model w)))"
proof (induction evs arbitrary: w)
  case Nil
  from statesFrom_hd [OF inv1_state [OF Nil]] obtain r where
    "statesFrom (state (model w)) = state (model w) # r" by blast
  then have "remdups_adj (trace env [] w) = take 1 (statesFrom (state (model w)))" by simp
  then show ?case by blast
next
  case (Cons ev evs)
  let ?s = "state (model w)"
  from statesFrom_hd [OF inv1_state [OF Cons.prems]] obtain r where
    r: "statesFrom ?s = ?s # r" by blast
  show ?case
  proof (cases "step env ev w")
    case (Inl e)
    with r have "remdups_adj (trace env (ev # evs) w) = take 1 (statesFrom ?s)" by simp
    then show ?thesis by blast
  next
    case (Inr w1)
    from inv1_step [OF Cons.prems Inr] have i1: "inv1 env sel w1"
      and adv: "advances ?s (state (model w1))" by simp_all
    from Cons.IH [OF i1] obtain n where n: "0 < n"
      and ih: "remdups_adj (trace env evs w1) = take n (statesFrom (state (model w1)))" by blast
    from trace_hd [of env evs w1] obtain t where t: "trace env evs w1 = state (model w1) # t" by blast
    show ?thesis
    proof (cases "state (model w1) = ?s")
      case True
      have "remdups_adj (trace env (ev # evs) w) = remdups_adj (?s # ?s # t)"
        using Inr t True by simp
      also have "\<dots> = remdups_adj (trace env evs w1)" using t True by simp
      finally show ?thesis using ih n True by auto
    next
      case False
      from advances_statesFrom [OF inv1_state [OF Cons.prems] adv False]
      have sf: "statesFrom ?s = ?s # statesFrom (state (model w1))" .
      have "remdups_adj (trace env (ev # evs) w) = remdups_adj (?s # state (model w1) # t)"
        using Inr t by simp
      also have "\<dots> = ?s # remdups_adj (trace env evs w1)" using t False by simp
      also have "\<dots> = take (Suc n) (statesFrom ?s)" using ih sf by simp
      finally show ?thesis by blast
    qed
  qed
qed

subsection \<open>Prompting\<close>




lemma inv1_prompting:
  assumes i: "inv1 env sel w" and p: "state (model w) = ''prompting''" and ne: "sel \<noteq> []"
  shows "selectedLanguages (model w) = sel" and "currentIndex (model w) < length sel"
    and "fst ` set (userChoices (model w)) = set (take (currentIndex (model w)) sel)"
    and "\<exists>st. map_of (installationStatus (model w)) (sel ! currentIndex (model w)) = Some st"
proof -
  from i p have pp: "phasePrompting sel w" and s: "selectedLanguages (model w) = sel"
    by (simp_all add: inv1_def phaseChecking_def phaseInstalling_def)
  from pp ne show lt: "currentIndex (model w) < length sel" by (simp add: phasePrompting_def)
  from pp show "fst ` set (userChoices (model w)) = set (take (currentIndex (model w)) sel)"
    by (simp add: phasePrompting_def)
  from lt have "sel ! currentIndex (model w) \<in> set sel" by simp
  with pp have "map_of (installationStatus (model w)) (sel ! currentIndex (model w)) \<noteq> None"
    unfolding phasePrompting_def by blast
  then show "\<exists>st. map_of (installationStatus (model w)) (sel ! currentIndex (model w)) = Some st"
    by auto
  from s show "selectedLanguages (model w) = sel" .
qed

lemma empty_selection_prompting:
  "exec env [RunCmd 0, Deliver 0] (initWorld []) =
     Inr \<lparr>model = \<lparr>selectedLanguages = [], installationStatus = [], currentIndex = 0,
                    state = ''prompting'', userChoices = [], languageProgress = []\<rparr>,
          heap = [], pending = [], msgs = [], workers = [], results = [], quitting = False\<rparr>"
  by (simp add: step_def initWorld_def NewDownloadInstallModel_def Init_def remove_nth_def
      checkInstalledLanguages_def dispatch_def View_def)

lemma empty_selection_key:
  assumes "state (model w) = ''prompting''" and "selectedLanguages (model w) = []"
    and "k = ''y'' \<or> k = ''enter'' \<or> k = ''n'' \<or> k = ''u''"
  shows "dispatch (KeyMsg k) w = Inl IndexOutOfRange"
  using assms(3) assms(1) assms(2)
  by (elim disjE) (simp_all add: dispatch_def currentLanguage_def)

subsection \<open>A run that skips every item\<close>

lemma init_prompting:
  "exec env [RunCmd 0, Deliver 0] (initWorld sel) =
     Inr \<lparr>model = \<lparr>selectedLanguages = sel, installationStatus = checkInstalledLanguages env sel,
                    currentIndex = 0, state = ''prompting'', userChoices = [],
                    languageProgress = []\<rparr>,
          heap = [], pending = [], msgs = [], workers = [], results = [], quitting = False\<rparr>"
  by (simp add: step_def initWorld_def NewDownloadInstallModel_def Init_def remove_nth_def
      dispatch_def View_def)

lemma lookup_skip:
  assumes "\<forall>(k, c) \<in> set uc. c = ''skip''" and "l \<in> fst ` set uc"
  shows "lookup_str uc l = ''skip''"
proof -
  from assms(2) obtain c where c: "map_of uc l = Some c"
    by (cases "map_of uc l") (auto simp: map_of_eq_None_iff)
  then have "(l, c) \<in> set uc" by (rule map_of_SomeD)
  with assms(1) have "c = ''skip''" by blast
  with c show ?thesis by (simp add: lookup_str_def)
qed

lemma render_skip:
  "\<forall>l \<in> set langs. lookup_str uc l = ''skip'' \<Longrightarrow>
   renderInstallationProgress langs uc (lp, h) = (lp, h)"
  by (induction langs) simp_all

lemma makeTrackers_skip:
  "\<forall>l \<in> set langs. lookup_str uc l = ''skip'' \<Longrightarrow> makeTrackers langs uc (pt, h) = (pt, h)"
  by (induction langs) simp_all

lemma startWorkers_skip:
  "\<forall>l \<in> set langs. lookup_str uc l = ''skip'' \<Longrightarrow>
   \<exists>r. startWorkers env langs uc pt (r0, ws) = Inr (r, ws)"
  by (induction langs arbitrary: r0) (simp_all add: Let_def)

lemma skip_keys:
  assumes "i < length sel" and "\<forall>(k, c) \<in> set uc. c = ''skip''"
    and "fst ` set uc = set (take i sel)"
  shows "\<exists>uc'. exec env (replicate (length sel - i) (Key ''n''))
           \<lparr>model = \<lparr>selectedLanguages = sel, installationStatus = st, currentIndex = i,
                      state = ''prompting'', userChoices = uc, languageProgress = []\<rparr>,
            heap = [], pending = [], msgs = [], workers = [], results = [], quitting = False\<rparr>
         = Inr \<lparr>model = \<lparr>selectedLanguages = sel, installationStatus = st,
                          currentIndex = length sel, state = ''installing'', userChoices = uc',
                          languageProgress = []\<rparr>,
                heap = [], pending = [InstallSelected sel uc' st, ProgressUpdateTicker],
                msgs = [], workers = [], results = [], quitting = False\<rparr>
         \<and> (\<forall>l \<in> set sel. lookup_str uc' l = ''skip'')"
  using assms
proof (induction "length sel - i" arbitrary: i uc)
  case 0
  then show ?case by simp
next
  case (Suc k)
  let ?uc = "AList.update (sel ! i) ''skip'' uc"
  have all: "\<forall>(k, c) \<in> set ?uc. c = ''skip''"
    by (rule update_all [OF Suc.prems(2)]) simp
  have dom: "fst ` set ?uc = set (take (Suc i) sel)"
    using Suc.prems(1) Suc.prems(3) by (simp add: dom_update_fst take_Suc_set)
  from Suc.hyps(2) have rep: "replicate (length sel - i) (Key ''n'')
      = Key ''n'' # replicate (length sel - Suc i) (Key ''n'')"
    by (metis Suc_diff_Suc Suc.prems(1) replicate_Suc)
  show ?case
  proof (cases "Suc i < length sel")
    case True
    from Suc.hyps(2) have k: "k = length sel - Suc i" by simp
    from Suc.hyps(1) [OF k True all dom] obtain uc' where
      ih: "exec env (replicate (length sel - Suc i) (Key ''n''))
           \<lparr>model = \<lparr>selectedLanguages = sel, installationStatus = st, currentIndex = Suc i,
                      state = ''prompting'', userChoices = ?uc, languageProgress = []\<rparr>,
            heap = [], pending = [], msgs = [], workers = [], results = [], quitting = False\<rparr>
         = Inr \<lparr>model = \<lparr>selectedLanguages = sel, installationStatus = st,
                          currentIndex = length sel, state = ''installing'', userChoices = uc',
                          languageProgress = []\<rparr>,
                heap = [], pending = [InstallSelected sel uc' st, ProgressUpdateTicker],
                msgs = [], workers = [], results = [], quitting = False\<rparr>"
      and sk: "\<forall>l \<in> set sel. lookup_str uc' l = ''skip''" by blast
    have "step env (Key ''n'')
           \<lparr>model = \<lparr>selectedLanguages = sel, installationStatus = st, currentIndex = i,
                      state = ''prompting'', userChoices = uc, languageProgress = []\<rparr>,
            heap = [], pending = [], msgs = [], workers = [], results = [], quitting = False\<rparr>
        = Inr \<lparr>model = \<lparr>selectedLanguages = sel, installationStatus = st, currentIndex = Suc i,
                      state = ''prompting'', userChoices = ?uc, languageProgress = []\<rparr>,
            heap = [], pending = [], msgs = [], workers = [], results = [], quitting = False\<rparr>"
      using True Suc.prems(1)
      by (simp add: step_def dispatch_def currentLanguage_def recordChoice_def Let_def View_def)
    with ih sk rep show ?thesis by auto
  next
    case False
    with Suc.prems(1) have e: "Suc i = length sel" by simp
    then have z: "length sel - Suc i = 0" by simp
    from dom e have "fst ` set ?uc = set sel" by simp
    with lookup_skip [OF all] have sk: "\<forall>l \<in> set sel. lookup_str ?uc l = ''skip''" by blast
    have "step env (Key ''n'')
           \<lparr>model = \<lparr>selectedLanguages = sel, installationStatus = st, currentIndex = i,
                      state = ''prompting'', userChoices = uc, languageProgress = []\<rparr>,
            heap = [], pending = [], msgs = [], workers = [], results = [], quitting = False\<rparr>
        = Inr \<lparr>model = \<lparr>selectedLanguages = sel, installationStatus = st,
                          currentIndex = length sel, state = ''installing'', userChoices = ?uc,
                          languageProgress = []\<rparr>,
                heap = [], pending = [InstallSelected sel ?uc st, ProgressUpdateTicker],
                msgs = [], workers = [], results = [], quitting = False\<rparr>"
      using e Suc.prems(1) render_skip [OF sk]
      by (simp add: step_def dispatch_def currentLanguage_def recordChoice_def Let_def View_def)
    with sk rep z show ?thesis by auto
  qed
qed

lemma exec_append:
  "exec env (xs @ ys) w = (case exec env xs w of Inl e \<Rightarrow> Inl e | Inr w' \<Rightarrow> exec env ys w')"
  by (induction xs arbitrary: w) (auto split: sum.splits)

lemma skip_install_completes:
  assumes sk: "\<forall>l \<in> set sel. lookup_str uc l = ''skip''"
  shows "\<exists>w. exec env [RunCmd 0, Deliver 0, RunCmd 0, Deliver 0]
           \<lparr>model = \<lparr>selectedLanguages = sel, installationStatus = st,
                          currentIndex = length sel, state = ''installing'', userChoices = uc,
                          languageProgress = []\<rparr>,
                heap = [], pending = [InstallSelected sel uc st, ProgressUpdateTicker],
                msgs = [], workers = [], results = [], quitting = False\<rparr> = Inr w
         \<and> state (model w) = ''complete'' \<and> workers w = []"
proof -
  from startWorkers_skip [OF sk, of env "[]" "[]" "[]"] obtain r where
    r: "startWorkers env sel uc [] ([], []) = Inr (r, [])" by blast
  show ?thesis
    using r makeTrackers_skip [OF sk, of "[]" "[]"] render_skip [OF sk]
    by (simp add: step_def dispatch_def View_def remove_nth_def)
qed

lemma skipAll_completes:
  assumes ne: "sel \<noteq> []"
  shows "\<exists>w. exec env (skipAll (length sel)) (initWorld sel) = Inr w
           \<and> state (model w) = ''complete''"
proof -
  from ne have l: "0 < length sel" by simp
  from skip_keys [OF l, of "[]" env "checkInstalledLanguages env sel"] obtain uc where
    k: "exec env (replicate (length sel) (Key ''n''))
           \<lparr>model = \<lparr>selectedLanguages = sel, installationStatus = checkInstalledLanguages env sel,
                      currentIndex = 0, state = ''prompting'', userChoices = [],
                      languageProgress = []\<rparr>,
            heap = [], pending = [], msgs = [], workers = [], results = [], quitting = False\<rparr>
         = Inr \<lparr>model = \<lparr>selectedLanguages = sel,
                          installationStatus = checkInstalledLanguages env sel,
                          currentIndex = length sel, state = ''installing'', userChoices = uc,
                          languageProgress = []\<rparr>,
                heap = [],
                pending = [InstallSelected sel uc (checkInstalledLanguages env sel),
                           ProgressUpdateTicker],
                msgs = [], workers = [], results = [], quitting = False\<rparr>"
    and sk: "\<forall>l \<in> set sel. lookup_str uc l = ''skip''" by auto
  from skip_install_completes [OF sk, of env "checkInstalledLanguages env sel"] obtain w where
    w: "exec env [RunCmd 0, Deliver 0, RunCmd 0, Deliver 0]
           \<lparr>model = \<lparr>selectedLanguages = sel,
                          installationStatus = checkInstalledLanguages env sel,
                          currentIndex = length sel, state = ''installing'', userChoices = uc,
                          languageProgress = []\<rparr>,
                heap = [],
                pending = [InstallSelected sel uc (checkInstalledLanguages env sel),
                           ProgressUpdateTicker],
                msgs = [], workers = [], results = [], quitting = False\<rparr> = Inr w"
    and c: "state (model w) = ''complete''" by blast
  have "exec env (skipAll (length sel)) (initWorld sel) = Inr w"
    unfolding skipAll_def exec_append init_prompting using k w by simp
  with c show ?thesis by blast
qed

subsection \<open>Reading off a run\<close>

lemma exec_caseD:
  "(case x of Inl e \<Rightarrow> False | Inr w \<Rightarrow> P w) \<Longrightarrow> \<exists>w. x = Inr w \<and> P w"
  by (cases x) auto

subsection \<open>The order of the states (C2)\<close>

lemma states_in_order_core:
  "sel \<noteq> [] \<longrightarrow>
     (\<exists>n. 0 < n \<and> remdups_adj (trace env evs (initWorld sel)) = take n allStates)
     \<and> (\<exists>w. exec env evs (initWorld sel) = Inr w
            \<and> (state (model w) = ''complete'' \<longrightarrow>
                 remdups_adj (trace env evs (initWorld sel)) = allStates))"
proof
  assume ne: "sel \<noteq> []"
  have s0: "state (model (initWorld sel)) = ''checking''"
    by (simp add: initWorld_def NewDownloadInstallModel_def)
  from trace_ordered [OF inv1_init, where evs=evs and env=env and sel=sel] obtain n where n: "0 < n"
    and tr: "remdups_adj (trace env evs (initWorld sel)) = take n allStates"
    by (auto simp: s0 statesFrom_simps allStates_def)
  from inv1_exec_ok [OF inv1_init ne, where evs=evs and env=env] obtain w where
    w: "exec env evs (initWorld sel) = Inr w" by blast
  have "remdups_adj (trace env evs (initWorld sel)) = allStates" if c: "state (model w) = ''complete''"
  proof -
    from trace_hd [of env evs "initWorld sel"] have ne': "trace env evs (initWorld sel) \<noteq> []" by auto
    have "last (remdups_adj (trace env evs (initWorld sel))) = ''complete''"
      using trace_last [OF w] c ne' by (simp add: last_remdups_adj)
    with tr n have l: "last (take n allStates) = ''complete''" by simp
    have "n \<ge> 4"
    proof (rule ccontr)
      assume "\<not> n \<ge> 4"
      with n have "n = 1 \<or> n = 2 \<or> n = 3" by arith
      then show False using l by (elim disjE) (simp_all add: allStates_def numeral_2_eq_2 numeral_3_eq_3)
    qed
    then show ?thesis using tr by (simp add: allStates_def)
  qed
  with n tr w show "(\<exists>n. 0 < n \<and> remdups_adj (trace env evs (initWorld sel)) = take n allStates)
     \<and> (\<exists>w. exec env evs (initWorld sel) = Inr w
            \<and> (state (model w) = ''complete'' \<longrightarrow>
                 remdups_adj (trace env evs (initWorld sel)) = allStates))" by blast
qed

text \<open>
  C2.  For a non-empty selection, whatever the machine answers and however the commands,
  messages, key presses and worker actions interleave, the states a run passes through,
  with repetitions of the same state merged, are an initial part of checking, prompting,
  installing, complete: every state is entered from its predecessor, at most once, and
  never left for an earlier one.  The run never panics, and a run that ends in complete
  has passed through all four in this order.  Such runs exist for every selection and
  machine: the run that skips every item ends in complete.
\<close>

theorem states_in_order:
  "sel \<noteq> [] \<longrightarrow>
     (\<exists>n. 0 < n \<and> remdups_adj (trace env evs (initWorld sel)) = take n allStates)
     \<and> (\<exists>w. exec env evs (initWorld sel) = Inr w
            \<and> (state (model w) = ''complete'' \<longrightarrow>
                 remdups_adj (trace env evs (initWorld sel)) = allStates))
     \<and> (\<exists>w. exec env (skipAll (length sel)) (initWorld sel) = Inr w
            \<and> state (model w) = ''complete'')"
proof
  assume ne: "sel \<noteq> []"
  from states_in_order_core [of sel env evs] ne
  have ab: "(\<exists>n. 0 < n \<and> remdups_adj (trace env evs (initWorld sel)) = take n allStates)
     \<and> (\<exists>w. exec env evs (initWorld sel) = Inr w
            \<and> (state (model w) = ''complete'' \<longrightarrow>
                 remdups_adj (trace env evs (initWorld sel)) = allStates))" by (rule mp)
  from skipAll_completes [OF ne, of env]
  have c: "\<exists>w. exec env (skipAll (length sel)) (initWorld sel) = Inr w
            \<and> state (model w) = ''complete''" .
  from ab c show "(\<exists>n. 0 < n \<and> remdups_adj (trace env evs (initWorld sel)) = take n allStates)
     \<and> (\<exists>w. exec env evs (initWorld sel) = Inr w
            \<and> (state (model w) = ''complete'' \<longrightarrow>
                 remdups_adj (trace env evs (initWorld sel)) = allStates))
     \<and> (\<exists>w. exec env (skipAll (length sel)) (initWorld sel) = Inr w
            \<and> state (model w) = ''complete'')"
    by (elim conjE) (intro conjI; assumption)
qed

theorem states_in_order_witness:
  "[''Go''] \<noteq> []
   \<and> (\<exists>w. exec envNone evsGo (initWorld [''Go'']) = Inr w \<and> state (model w) = ''complete'')
   \<and> remdups_adj (trace envNone evsGo (initWorld [''Go''])) = allStates
   \<and> (\<exists>w. exec envNone (skipAll (length [''Go''])) (initWorld [''Go'']) = Inr w
          \<and> state (model w) = ''complete'')"
proof -
  have ne: "[''Go''] \<noteq> ([] :: string list)" by simp
  have "case exec envNone evsGo (initWorld [''Go'']) of
          Inl e \<Rightarrow> False | Inr w \<Rightarrow> state (model w) = ''complete''"
    by code_simp
  then obtain w0 where e: "exec envNone evsGo (initWorld [''Go'']) = Inr w0"
    and c: "state (model w0) = ''complete''"
    by (auto dest: exec_caseD)
  from states_in_order [of "[''Go'']" envNone evsGo] ne
  have t: "(\<exists>n. 0 < n \<and> remdups_adj (trace envNone evsGo (initWorld [''Go''])) = take n allStates)
     \<and> (\<exists>w. exec envNone evsGo (initWorld [''Go'']) = Inr w
            \<and> (state (model w) = ''complete'' \<longrightarrow>
                 remdups_adj (trace envNone evsGo (initWorld [''Go''])) = allStates))
     \<and> (\<exists>w. exec envNone (skipAll (length [''Go''])) (initWorld [''Go'']) = Inr w
            \<and> state (model w) = ''complete'')" by (rule mp)
  from t e c have r: "remdups_adj (trace envNone evsGo (initWorld [''Go''])) = allStates"
    by auto
  from t have s: "\<exists>w. exec envNone (skipAll (length [''Go''])) (initWorld [''Go'']) = Inr w
          \<and> state (model w) = ''complete''" by (elim conjE)
  from e c have x: "\<exists>w. exec envNone evsGo (initWorld [''Go'']) = Inr w \<and> state (model w) = ''complete''"
    by blast
  from ne x r s show ?thesis by (intro conjI)
qed

subsection \<open>The empty selection (C3)\<close>

lemma empty_selection_stuck_core:
  "(\<forall>evs w. exec env evs (initWorld []) = Inr w \<longrightarrow>
       state (model w) = ''checking'' \<or> state (model w) = ''prompting'')
   \<and> exec env [RunCmd 0, Deliver 0, Key ''y''] (initWorld []) = Inl IndexOutOfRange"
proof (intro conjI allI impI)
  fix evs w
  assume e: "exec env evs (initWorld []) = Inr w"
  from inv1_exec [OF inv1_init e] have "inv1 env [] w" .
  then show "state (model w) = ''checking'' \<or> state (model w) = ''prompting''"
    by (simp add: inv1_def phaseChecking_def phasePrompting_def phaseInstalling_def) blast
next
  let ?w = "\<lparr>model = \<lparr>selectedLanguages = [], installationStatus = [], currentIndex = 0,
                    state = ''prompting'', userChoices = [], languageProgress = []\<rparr>,
          heap = [], pending = [], msgs = [], workers = [], results = [], quitting = False\<rparr>"
  have "exec env ([RunCmd 0, Deliver 0] @ [Key ''y'']) (initWorld []) = step env (Key ''y'') ?w"
    using empty_selection_prompting [of env]
    by (simp add: step_def initWorld_def NewDownloadInstallModel_def Init_def remove_nth_def
      checkInstalledLanguages_def dispatch_def View_def currentLanguage_def)
  also have "\<dots> = Inl IndexOutOfRange"
    by (simp add: step_def dispatch_def currentLanguage_def)
  finally show "exec env [RunCmd 0, Deliver 0, Key ''y''] (initWorld []) = Inl IndexOutOfRange"
    by simp
qed

text \<open>
  C3.  What the code does with the empty selection: no run ever leaves checking and
  prompting, so installing and complete are never reached.  Once the (empty) probe
  result is delivered the orchestrator is in prompting with nothing scheduled, and each
  of the keys \<^verbatim>\<open>y\<close>, \<^verbatim>\<open>enter\<close>, \<^verbatim>\<open>n\<close> and \<^verbatim>\<open>u\<close> then indexes the empty selection
  and panics.
\<close>

theorem empty_selection_stuck:
  "(\<forall>evs w. exec env evs (initWorld []) = Inr w \<longrightarrow>
       state (model w) = ''checking'' \<or> state (model w) = ''prompting'')
   \<and> (\<exists>w. exec env [RunCmd 0, Deliver 0] (initWorld []) = Inr w
          \<and> state (model w) = ''prompting'' \<and> pending w = [] \<and> msgs w = []
          \<and> workers w = [] \<and> userChoices (model w) = [])
   \<and> exec env [RunCmd 0, Deliver 0, Key ''y''] (initWorld []) = Inl IndexOutOfRange
   \<and> exec env [RunCmd 0, Deliver 0, Key ''enter''] (initWorld []) = Inl IndexOutOfRange
   \<and> exec env [RunCmd 0, Deliver 0, Key ''n''] (initWorld []) = Inl IndexOutOfRange
   \<and> exec env [RunCmd 0, Deliver 0, Key ''u''] (initWorld []) = Inl IndexOutOfRange"
proof -
  let ?w = "\<lparr>model = \<lparr>selectedLanguages = [], installationStatus = [], currentIndex = 0,
                    state = ''prompting'', userChoices = [], languageProgress = []\<rparr>,
          heap = [], pending = [], msgs = [], workers = [], results = [], quitting = False\<rparr>"
  note p = empty_selection_prompting [of env]
  have a: "\<forall>evs w. exec env evs (initWorld []) = Inr w \<longrightarrow>
       state (model w) = ''checking'' \<or> state (model w) = ''prompting''"
    using empty_selection_stuck_core [of env] by (rule conjunct1)
  have b: "\<exists>w. exec env [RunCmd 0, Deliver 0] (initWorld []) = Inr w
          \<and> state (model w) = ''prompting'' \<and> pending w = [] \<and> msgs w = []
          \<and> workers w = [] \<and> userChoices (model w) = []"
    using p by simp
  have k: "exec env ([RunCmd 0, Deliver 0] @ [Key k]) (initWorld []) = Inl IndexOutOfRange"
    if "k = ''y'' \<or> k = ''enter'' \<or> k = ''n'' \<or> k = ''u''" for k
  proof -
    have "state (model ?w) = ''prompting''" "selectedLanguages (model ?w) = []" by simp_all
    from empty_selection_key [OF this that]
    have "step env (Key k) ?w = Inl IndexOutOfRange" by (simp add: step_def)
    then show ?thesis unfolding exec_append p by simp
  qed
  from a b k [of "''y''"] k [of "''enter''"] k [of "''n''"] k [of "''u''"]
  show ?thesis by simp
qed

theorem empty_selection_stuck_witness:
  "(\<exists>w. exec envNone [RunCmd 0, Deliver 0, Other, Key ''x'', RunCmd 0, Deliver 0] (initWorld []) = Inr w
        \<and> (state (model w) = ''checking'' \<or> state (model w) = ''prompting''))
   \<and> exec envNone [RunCmd 0, Deliver 0, Key ''n''] (initWorld []) = Inl IndexOutOfRange"
proof -
  have "case exec envNone [RunCmd 0, Deliver 0, Other, Key ''x'', RunCmd 0, Deliver 0] (initWorld []) of
          Inl e \<Rightarrow> False | Inr w \<Rightarrow> True"
    by code_simp
  then obtain w0 where
    e: "exec envNone [RunCmd 0, Deliver 0, Other, Key ''x'', RunCmd 0, Deliver 0] (initWorld []) = Inr w0"
    by (auto dest: exec_caseD)
  note t = empty_selection_stuck [of envNone]
  from t have "\<forall>evs w. exec envNone evs (initWorld []) = Inr w \<longrightarrow>
       state (model w) = ''checking'' \<or> state (model w) = ''prompting''" by (rule conjunct1)
  with e have s: "state (model w0) = ''checking'' \<or> state (model w0) = ''prompting''" by blast
  from t have n: "exec envNone [RunCmd 0, Deliver 0, Key ''n''] (initWorld []) = Inl IndexOutOfRange"
    by (elim conjE)
  from e s have "\<exists>w. exec envNone [RunCmd 0, Deliver 0, Other, Key ''x'', RunCmd 0, Deliver 0] (initWorld []) = Inr w
        \<and> (state (model w) = ''checking'' \<or> state (model w) = ''prompting'')" by blast
  with n show ?thesis by (intro conjI)
qed

subsection \<open>Decisions in selection order (C7)\<close>




subsection \<open>The cursor stays inside the selection (C10)\<close>

lemma prompting_index_in_bounds_core:
  "(sel \<noteq> [] \<longrightarrow>
      (\<exists>w. exec env evs (initWorld sel) = Inr w
         \<and> (state (model w) = ''prompting'' \<longrightarrow>
              currentIndex (model w) < length (selectedLanguages (model w))
              \<and> (\<forall>k. \<exists>w'. dispatch (KeyMsg k) w = Inr w'
                     \<and> (state (model w') = ''prompting'' \<longrightarrow>
                          currentIndex (model w') < length (selectedLanguages (model w')))))))
   \<and> (\<exists>w. exec env [RunCmd 0, Deliver 0] (initWorld []) = Inr w
          \<and> state (model w) = ''prompting''
          \<and> currentIndex (model w) = length (selectedLanguages (model w))
          \<and> dispatch (KeyMsg ''y'') w = Inl IndexOutOfRange
          \<and> dispatch (KeyMsg ''enter'') w = Inl IndexOutOfRange
          \<and> dispatch (KeyMsg ''n'') w = Inl IndexOutOfRange
          \<and> dispatch (KeyMsg ''u'') w = Inl IndexOutOfRange)"
proof (intro conjI impI)
  assume ne: "sel \<noteq> []"
  from inv1_exec_ok [OF inv1_init ne, where evs=evs and env=env] obtain w where
    w: "exec env evs (initWorld sel) = Inr w" by blast
  from inv1_exec [OF inv1_init w] have i: "inv1 env sel w" .
  have "currentIndex (model w) < length (selectedLanguages (model w))
        \<and> (\<forall>k. \<exists>w'. dispatch (KeyMsg k) w = Inr w'
               \<and> (state (model w') = ''prompting'' \<longrightarrow>
                    currentIndex (model w') < length (selectedLanguages (model w'))))"
    if p: "state (model w) = ''prompting''"
  proof -
    note f = inv1_prompting [OF i p ne]
    have "\<exists>w'. dispatch (KeyMsg k) w = Inr w'
               \<and> (state (model w') = ''prompting'' \<longrightarrow>
                    currentIndex (model w') < length (selectedLanguages (model w')))" for k
    proof -
      from inv1_key_ok [OF i ne] obtain w' where d: "dispatch (KeyMsg k) w = Inr w'" by blast
      from inv1_dispatch_key [OF i d] have i': "inv1 env sel w'" by simp
      have "currentIndex (model w') < length (selectedLanguages (model w'))"
        if "state (model w') = ''prompting''"
        using inv1_prompting(1,2) [OF i' that ne] by simp
      with d show ?thesis by blast
    qed
    with f(1) f(2) show ?thesis by simp
  qed
  with w show "\<exists>w. exec env evs (initWorld sel) = Inr w
         \<and> (state (model w) = ''prompting'' \<longrightarrow>
              currentIndex (model w) < length (selectedLanguages (model w))
              \<and> (\<forall>k. \<exists>w'. dispatch (KeyMsg k) w = Inr w'
                     \<and> (state (model w') = ''prompting'' \<longrightarrow>
                          currentIndex (model w') < length (selectedLanguages (model w')))))"
    by blast
next
  let ?w = "\<lparr>model = \<lparr>selectedLanguages = [], installationStatus = [], currentIndex = 0,
                    state = ''prompting'', userChoices = [], languageProgress = []\<rparr>,
          heap = [], pending = [], msgs = [], workers = [], results = [], quitting = False\<rparr>"
  have "state (model ?w) = ''prompting''" "selectedLanguages (model ?w) = []" by simp_all
  note k = empty_selection_key [OF this]
  have "exec env [RunCmd 0, Deliver 0] (initWorld []) = Inr ?w
          \<and> state (model ?w) = ''prompting''
          \<and> currentIndex (model ?w) = length (selectedLanguages (model ?w))
          \<and> dispatch (KeyMsg ''y'') ?w = Inl IndexOutOfRange
          \<and> dispatch (KeyMsg ''enter'') ?w = Inl IndexOutOfRange
          \<and> dispatch (KeyMsg ''n'') ?w = Inl IndexOutOfRange
          \<and> dispatch (KeyMsg ''u'') ?w = Inl IndexOutOfRange"
    using empty_selection_prompting [of env] k [of "''y''"] k [of "''enter''"] k [of "''n''"] k [of "''u''"]
    by simp
  then show "\<exists>w. exec env [RunCmd 0, Deliver 0] (initWorld []) = Inr w
          \<and> state (model w) = ''prompting''
          \<and> currentIndex (model w) = length (selectedLanguages (model w))
          \<and> dispatch (KeyMsg ''y'') w = Inl IndexOutOfRange
          \<and> dispatch (KeyMsg ''enter'') w = Inl IndexOutOfRange
          \<and> dispatch (KeyMsg ''n'') w = Inl IndexOutOfRange
          \<and> dispatch (KeyMsg ''u'') w = Inl IndexOutOfRange" by (rule exI)
qed

text \<open>
  C10.  Every run enters prompting with the cursor at zero.  For a non-empty selection
  no run ever panics, and in every prompting state a run reaches the cursor is below the
  length of the selection, so the index reads of the key handlers are in bounds; every
  key is handled without a panic, and if the state after it is still prompting the
  cursor is again below the length: the key that moves the cursor to the length leaves
  prompting in the same step.  The selection has to be non-empty: with the empty
  selection prompting is entered all the same, with the cursor equal to the length, and
  each of \<^verbatim>\<open>y\<close>, \<^verbatim>\<open>enter\<close>, \<^verbatim>\<open>n\<close> and \<^verbatim>\<open>u\<close> reads out of bounds.
\<close>

theorem prompting_index_in_bounds:
  "(\<exists>w0. exec env [RunCmd 0, Deliver 0] (initWorld sel) = Inr w0
       \<and> state (model w0) = ''prompting'' \<and> currentIndex (model w0) = 0
       \<and> selectedLanguages (model w0) = sel)
   \<and> (sel \<noteq> [] \<longrightarrow>
      (\<exists>w. exec env evs (initWorld sel) = Inr w
         \<and> (state (model w) = ''prompting'' \<longrightarrow>
              currentIndex (model w) < length (selectedLanguages (model w))
              \<and> (\<forall>k. \<exists>w'. dispatch (KeyMsg k) w = Inr w'
                     \<and> (state (model w') = ''prompting'' \<longrightarrow>
                          currentIndex (model w') < length (selectedLanguages (model w')))))))
   \<and> (\<exists>w. exec env [RunCmd 0, Deliver 0] (initWorld []) = Inr w
          \<and> state (model w) = ''prompting''
          \<and> currentIndex (model w) = length (selectedLanguages (model w))
          \<and> dispatch (KeyMsg ''y'') w = Inl IndexOutOfRange
          \<and> dispatch (KeyMsg ''enter'') w = Inl IndexOutOfRange
          \<and> dispatch (KeyMsg ''n'') w = Inl IndexOutOfRange
          \<and> dispatch (KeyMsg ''u'') w = Inl IndexOutOfRange)"
proof (rule conjI)
  show "\<exists>w0. exec env [RunCmd 0, Deliver 0] (initWorld sel) = Inr w0
       \<and> state (model w0) = ''prompting'' \<and> currentIndex (model w0) = 0
       \<and> selectedLanguages (model w0) = sel"
    using init_prompting [of env sel] by simp
qed (rule prompting_index_in_bounds_core)

theorem prompting_index_in_bounds_witness:
  "\<exists>w w'. exec envGo [RunCmd 0, Deliver 0, Key ''u''] (initWorld [''Go'', ''Rust'']) = Inr w
      \<and> state (model w) = ''prompting''
      \<and> currentIndex (model w) < length (selectedLanguages (model w))
      \<and> dispatch (KeyMsg ''y'') w = Inr w'"
proof -
  have ne: "[''Go'', ''Rust''] \<noteq> ([] :: string list)" by simp
  have "case exec envGo [RunCmd 0, Deliver 0, Key ''u''] (initWorld [''Go'', ''Rust'']) of
          Inl e \<Rightarrow> False
        | Inr w \<Rightarrow> state (model w) = ''prompting''"
    by code_simp
  then obtain w0 where e0: "exec envGo [RunCmd 0, Deliver 0, Key ''u''] (initWorld [''Go'', ''Rust'']) = Inr w0"
    and p0: "state (model w0) = ''prompting''"
    by (auto dest: exec_caseD)
  from prompting_index_in_bounds [of envGo "[''Go'', ''Rust'']" "[RunCmd 0, Deliver 0, Key ''u'']"]
  have "[''Go'', ''Rust''] \<noteq> [] \<longrightarrow>
      (\<exists>w. exec envGo [RunCmd 0, Deliver 0, Key ''u''] (initWorld [''Go'', ''Rust'']) = Inr w
         \<and> (state (model w) = ''prompting'' \<longrightarrow>
              currentIndex (model w) < length (selectedLanguages (model w))
              \<and> (\<forall>k. \<exists>w'. dispatch (KeyMsg k) w = Inr w'
                     \<and> (state (model w') = ''prompting'' \<longrightarrow>
                          currentIndex (model w') < length (selectedLanguages (model w'))))))"
    by (elim conjE)
  with ne e0 p0 have lt: "currentIndex (model w0) < length (selectedLanguages (model w0))"
    and k: "\<forall>k. \<exists>w'. dispatch (KeyMsg k) w0 = Inr w'
                     \<and> (state (model w') = ''prompting'' \<longrightarrow>
                          currentIndex (model w') < length (selectedLanguages (model w')))"
    by auto
  from k obtain w' where "dispatch (KeyMsg ''y'') w0 = Inr w'" by blast
  with e0 p0 lt show ?thesis by blast
qed

end
